theory Spec2Isabelle
  imports Main "HOL-Library.Multiset"
begin

section \<open>The funnel trend actors query\<close>

text \<open>
  The funnel trend engine of the repository is the generated ClickHouse query recorded in
  the query snapshots \<^verbatim>\<open>TestFunnelTrendsPersons.test_funnel_trend_persons_*\<close>. The three
  recorded queries are the same nest of SELECTs and differ only in the depth predicate of the
  last WHERE. Each SELECT of the nest is a function from its input rows to its output rows
  here, innermost first; line numbers are those of the first recorded query. The values the
  query generator printed into the text (team id, date range, conversion window, entrance
  period, depth predicate) are the fields of \<open>funnel_params\<close>; the three recorded queries
  are three values of it.
\<close>

subsection \<open>ClickHouse values and functions\<close>

text \<open>
  A \<^verbatim>\<open>DateTime64(6, 'UTC')\<close> is the number of microseconds since the epoch. A Nullable
  column is an \<open>option\<close>, NULL being \<open>None\<close>. A comparison with a NULL operand is NULL,
  and \<^verbatim>\<open>ifNull(c, 0)\<close> turns that into false. The dates a DateTime64 can hold are far
  from the bounds of its 64 bits, so sums of timestamps and intervals are sums of integers.
  \<^verbatim>\<open>toTimeZone(t, 'UTC')\<close> changes how an instant is printed, not the instant.
\<close>

type_synonym datetime = int

definition toIntervalDay :: "int \<Rightarrow> int" where
  "toIntervalDay n = n * 86400000000"

definition plus_ch :: "datetime option \<Rightarrow> int \<Rightarrow> datetime option" where
  "plus_ch t d = (case t of None \<Rightarrow> None | Some x \<Rightarrow> Some (x + d))"

definition lessOrEquals :: "int option \<Rightarrow> int option \<Rightarrow> bool option" where
  "lessOrEquals a b =
     (case a of None \<Rightarrow> None
      | Some x \<Rightarrow> (case b of None \<Rightarrow> None | Some y \<Rightarrow> Some (x \<le> y)))"

definition less_ch :: "int option \<Rightarrow> int option \<Rightarrow> bool option" where
  "less_ch a b =
     (case a of None \<Rightarrow> None
      | Some x \<Rightarrow> (case b of None \<Rightarrow> None | Some y \<Rightarrow> Some (x < y)))"

definition greaterOrEquals :: "int option \<Rightarrow> int option \<Rightarrow> bool option" where
  "greaterOrEquals a b =
     (case a of None \<Rightarrow> None
      | Some x \<Rightarrow> (case b of None \<Rightarrow> None | Some y \<Rightarrow> Some (x \<ge> y)))"

definition equals :: "'a option \<Rightarrow> 'a option \<Rightarrow> bool option" where
  "equals a b =
     (case a of None \<Rightarrow> None
      | Some x \<Rightarrow> (case b of None \<Rightarrow> None | Some y \<Rightarrow> Some (x = y)))"

definition ifNull :: "'a option \<Rightarrow> 'a \<Rightarrow> 'a" where
  "ifNull c d = (case c of None \<Rightarrow> d | Some v \<Rightarrow> v)"

definition isNotNull :: "'a option \<Rightarrow> bool" where
  "isNotNull c = (case c of None \<Rightarrow> False | Some v \<Rightarrow> True)"

definition dateDiff_second :: "datetime option \<Rightarrow> datetime option \<Rightarrow> int option" where
  \<comment> \<open>\<^verbatim>\<open>dateDiff('second', a, b)\<close>: the number of second boundaries between a and b.\<close>
  "dateDiff_second a b =
     (case a of None \<Rightarrow> None
      | Some x \<Rightarrow> (case b of None \<Rightarrow> None
                  | Some y \<Rightarrow> Some (y div 1000000 - x div 1000000)))"

definition toStartOfDay :: "datetime \<Rightarrow> datetime" where
  \<comment> \<open>Midnight (UTC) of the day of t. The builtin returns a 32-bit DateTime and saturates
    for days before 1970 or after 2106; the dates of the recorded queries are of 2021.\<close>
  "toStartOfDay t = t - t mod 86400000000"

fun min_ch :: "int option list \<Rightarrow> int option" where
  \<comment> \<open>The aggregate \<^verbatim>\<open>min\<close>: NULLs are skipped, and the result is NULL when nothing is left.\<close>
  "min_ch [] = None"
| "min_ch (None # xs) = min_ch xs"
| "min_ch (Some v # xs) = (case min_ch xs of None \<Rightarrow> Some v | Some m \<Rightarrow> Some (min v m))"

subsection \<open>Tables\<close>

record event_row =
  e_team_id :: int
  e_timestamp :: datetime
  e_event :: string
  e_distinct_id :: string

text \<open>
  The rows the four innermost SELECTs pass along. \<open>aggregation_target\<close> is a person id
  (a UUID, read as a number).
\<close>

record srow =
  aggregation_target :: int
  timestamp :: datetime
  step_0 :: int
  latest_0 :: "datetime option"
  step_1 :: int
  latest_1 :: "datetime option"
  step_2 :: int
  latest_2 :: "datetime option"

record drow = srow +
  steps :: int
  step_1_conversion_time :: "int option"
  step_2_conversion_time :: "int option"

record cohort_row =
  actor :: int
  entrance_period_start :: datetime
  steps_completed :: int

record person_row =
  person_id :: int
  created_at :: datetime

datatype depth_predicate = AtLeast int | Range int int

record funnel_params =
  team :: int
  date_from :: datetime
  date_to :: datetime
  conversion_window :: int
  entrance_period :: datetime
  depth :: depth_predicate

text \<open>
  The values of the three recorded queries: team 2, events from 2021-05-01 00:00:00 to
  2021-05-07 23:59:59.999999, \<^verbatim>\<open>toIntervalDay(14)\<close>, entrance period 2021-05-01.
\<close>

definition recorded :: "depth_predicate \<Rightarrow> funnel_params" where
  "recorded d =
     \<lparr>team = 2, date_from = 1619827200000000, date_to = 1620431999999999,
      conversion_window = toIntervalDay 14, entrance_period = 1619827200000000, depth = d\<rparr>"

definition returns_recordings :: funnel_params where
  "returns_recordings = recorded (AtLeast 2)"

definition with_drop_off :: funnel_params where
  "with_drop_off = recorded (Range 1 3)"

definition with_no_to_step :: funnel_params where
  "with_no_to_step = recorded (AtLeast 3)"

definition total_steps :: int where
  "total_steps = 3"

subsection \<open>Step Classifier: the innermost SELECT\<close>

text \<open>
  Lines 64 to 80. \<open>e__pdi\<close> is the result of the sub-select over \<^verbatim>\<open>person_distinct_id2\<close>
  (lines 74 to 79): it has one row
  per distinct id (GROUP BY), so it is a partial map from distinct ids to person ids. The
  INNER JOIN keeps an event once when its distinct id has a row and drops it otherwise.
\<close>

definition inner_join_pdi :: "(string \<rightharpoonup> int) \<Rightarrow> event_row list \<Rightarrow> (event_row \<times> int) list" where
  "inner_join_pdi e__pdi events =
     concat (map (\<lambda>e. case e__pdi (e_distinct_id e) of None \<Rightarrow> [] | Some p \<Rightarrow> [(e, p)]) events)"

definition select_steps :: "event_row \<times> int \<Rightarrow> srow" where
  "select_steps ep =
     (let e = fst ep;
          ts = e_timestamp e;
          s0 = (if e_event e = ''step one'' then 1 else 0);
          s1 = (if e_event e = ''step two'' then 1 else 0);
          s2 = (if e_event e = ''step three'' then 1 else 0)
      in \<lparr>aggregation_target = snd ep, timestamp = ts,
          step_0 = s0, latest_0 = (if ifNull (equals (Some s0) (Some 1)) False then Some ts else None),
          step_1 = s1, latest_1 = (if ifNull (equals (Some s1) (Some 1)) False then Some ts else None),
          step_2 = s2, latest_2 = (if ifNull (equals (Some s2) (Some 1)) False then Some ts else None)\<rparr>)"

definition where_events :: "funnel_params \<Rightarrow> event_row \<times> int \<Rightarrow> bool" where
  "where_events P ep =
     (let e = fst ep; r = select_steps ep
      in e_team_id e = team P
         \<and> (date_from P \<le> e_timestamp e \<and> e_timestamp e \<le> date_to P)
         \<and> e_event e \<in> set [''step one'', ''step three'', ''step two'']
         \<and> (ifNull (equals (Some (step_0 r)) (Some 1)) False
            \<or> ifNull (equals (Some (step_1 r)) (Some 1)) False
            \<or> ifNull (equals (Some (step_2 r)) (Some 1)) False))"

definition step_events :: "funnel_params \<Rightarrow> (string \<rightharpoonup> int) \<Rightarrow> event_row list \<Rightarrow> srow list" where
  "step_events P e__pdi events =
     map select_steps (filter (where_events P) (inner_join_pdi e__pdi events))"

subsection \<open>Window Resolver: the three SELECTs with window functions\<close>

text \<open>
  Lines 53 to 62 (\<open>window_1\<close>), 44 to 51 (\<open>null_out\<close>) and 34 to 42 (\<open>window_2\<close>).
  \<^verbatim>\<open>OVER (PARTITION BY aggregation_target ORDER BY timestamp DESC ROWS BETWEEN UNBOUNDED
  PRECEDING AND 0 PRECEDING)\<close>: the rows are put in descending order of timestamp, and the
  frame of a row is the row itself and the rows before it in that order that have its
  aggregation target. ClickHouse leaves the order of rows with equal timestamps open; here
  they keep the order they come in (the sort is stable), so every such order is the order of
  some input, and the two window passes order the rows alike.
\<close>

definition order_by_timestamp_desc :: "srow list \<Rightarrow> srow list" where
  "order_by_timestamp_desc rows = sort_key (\<lambda>r. - timestamp r) rows"

definition frame :: "srow list \<Rightarrow> nat \<Rightarrow> srow list" where
  "frame ws i =
     filter (\<lambda>x. aggregation_target x = aggregation_target (ws ! i)) (take (Suc i) ws)"

definition window_1 :: "srow list \<Rightarrow> srow list" where
  "window_1 rows =
     (let ws = order_by_timestamp_desc rows
      in map (\<lambda>i. (ws ! i)\<lparr>latest_1 := min_ch (map latest_1 (frame ws i)),
                           latest_2 := min_ch (map latest_2 (frame ws i))\<rparr>)
           [0..<length ws])"

definition null_out :: "srow list \<Rightarrow> srow list" where
  "null_out rows =
     map (\<lambda>r. r\<lparr>latest_2 := (if ifNull (less_ch (latest_2 r) (latest_1 r)) False
                              then None else latest_2 r)\<rparr>) rows"

definition window_2 :: "srow list \<Rightarrow> srow list" where
  "window_2 rows =
     (let ws = order_by_timestamp_desc rows
      in map (\<lambda>i. (ws ! i)\<lparr>latest_2 := min_ch (map latest_2 (frame ws i))\<rparr>)
           [0..<length ws])"

definition resolved :: "funnel_params \<Rightarrow> (string \<rightharpoonup> int) \<Rightarrow> event_row list \<Rightarrow> srow list" where
  "resolved P e__pdi events = window_2 (null_out (window_1 (step_events P e__pdi events)))"

subsection \<open>Depth Evaluator\<close>

text \<open>
  Lines 22 to 32 and the WHERE of line 81, which keeps the entrance candidates. \<open>W\<close> is
  the conversion window, \<^verbatim>\<open>toIntervalDay(14)\<close> in the recorded queries.
\<close>

definition depth_evaluator :: "int \<Rightarrow> srow \<Rightarrow> drow" where
  "depth_evaluator W r =
     srow.extend r
       \<lparr>steps =
          (if ifNull (lessOrEquals (latest_0 r) (latest_1 r)) False
              \<and> ifNull (lessOrEquals (latest_1 r) (plus_ch (latest_0 r) W)) False
              \<and> ifNull (lessOrEquals (latest_1 r) (latest_2 r)) False
              \<and> ifNull (lessOrEquals (latest_2 r) (plus_ch (latest_0 r) W)) False
           then 3
           else if ifNull (lessOrEquals (latest_0 r) (latest_1 r)) False
                   \<and> ifNull (lessOrEquals (latest_1 r) (plus_ch (latest_0 r) W)) False
           then 2 else 1),
        step_1_conversion_time =
          (if isNotNull (latest_1 r)
              \<and> ifNull (lessOrEquals (latest_1 r) (plus_ch (latest_0 r) W)) False
           then dateDiff_second (latest_0 r) (latest_1 r) else None),
        step_2_conversion_time =
          (if isNotNull (latest_2 r)
              \<and> ifNull (lessOrEquals (latest_2 r) (plus_ch (latest_1 r) W)) False
           then dateDiff_second (latest_1 r) (latest_2 r) else None)\<rparr>"

definition evaluated_rows :: "int \<Rightarrow> srow list \<Rightarrow> drow list" where
  "evaluated_rows W rows =
     map (depth_evaluator W) (filter (\<lambda>r. ifNull (equals (Some (step_0 r)) (Some 1)) False) rows)"

definition evaluated :: "funnel_params \<Rightarrow> (string \<rightharpoonup> int) \<Rightarrow> event_row list \<Rightarrow> drow list" where
  "evaluated P e__pdi events = evaluated_rows (conversion_window P) (resolved P e__pdi events)"

subsection \<open>Entrance Aggregator\<close>

text \<open>
  Lines 18 to 21 and 82 to 84.
  \<^verbatim>\<open>SELECT aggregation_target, toStartOfDay(timestamp) AS entrance_period_start, max(steps)
  AS steps_completed FROM ... WHERE entrance_period_start = ... GROUP BY aggregation_target,
  entrance_period_start\<close>: the WHERE comes before the grouping, and a group is never empty.
\<close>

definition group_key :: "drow \<Rightarrow> int \<times> datetime" where
  "group_key r = (aggregation_target r, toStartOfDay (timestamp r))"

definition entrance_cohorts :: "funnel_params \<Rightarrow> drow list \<Rightarrow> cohort_row list" where
  "entrance_cohorts P rows =
     (let sel = filter (\<lambda>r. ifNull (equals (Some (toStartOfDay (timestamp r)))
                                        (Some (entrance_period P))) False) rows
      in map (\<lambda>k. \<lparr>actor = fst k, entrance_period_start = snd k,
                    steps_completed = Max (set (map steps (filter (\<lambda>r. group_key r = k) sel)))\<rparr>)
           (remdups (map group_key sel)))"

subsection \<open>Trend Selector\<close>

text \<open>
  Lines 16 and 85 to 86 (\<open>source\<close>; line 85 is line 177 and line 269 of the second and the
  third recorded query), and lines 4 to 15 and 86 to 89 (the join with the persons, the
  order and the limit).
\<close>

fun depth_where :: "depth_predicate \<Rightarrow> int \<Rightarrow> bool" where
  "depth_where (AtLeast k) s = ifNull (greaterOrEquals (Some s) (Some k)) False"
| "depth_where (Range lo hi) s =
     (ifNull (greaterOrEquals (Some s) (Some lo)) False \<and> ifNull (less_ch (Some s) (Some hi)) False)"

definition source :: "funnel_params \<Rightarrow> cohort_row list \<Rightarrow> int list" where
  \<comment> \<open>The column \<^verbatim>\<open>actor_id\<close>, \<^verbatim>\<open>ORDER BY aggregation_target ASC\<close>.\<close>
  "source P cohorts =
     sort (map actor (filter (\<lambda>c. depth_where (depth P) (steps_completed c)) cohorts))"

text \<open>
  \<open>persons\<close> is the result of the sub-select over \<^verbatim>\<open>person\<close> (one row per person id, in
  the order the engine produced them). The join keeps the order of its left side. The rows
  of the result are \<^verbatim>\<open>persons.id, persons.id AS id, created_at, 1\<close>.
\<close>

type_synonym actor_row = "int \<times> int \<times> datetime \<times> int"

definition created :: "actor_row \<Rightarrow> datetime" where
  "created x = fst (snd (snd x))"

definition inner_join_source :: "person_row list \<Rightarrow> int list \<Rightarrow> actor_row list" where
  "inner_join_source persons src =
     concat (map (\<lambda>p. map (\<lambda>a. (person_id p, person_id p, created_at p, 1))
                        (filter (\<lambda>a. person_id p = a) src)) persons)"

definition order_by_created_at_desc :: "actor_row list \<Rightarrow> actor_row list" where
  "order_by_created_at_desc rows = sort_key (\<lambda>x. - created x) rows"

definition limit_offset :: "nat \<Rightarrow> nat \<Rightarrow> 'a list \<Rightarrow> 'a list" where
  "limit_offset n k rows = take n (drop k rows)"

definition select_actors :: "person_row list \<Rightarrow> int list \<Rightarrow> actor_row list" where
  "select_actors persons src =
     limit_offset 101 0 (order_by_created_at_desc (inner_join_source persons src))"

definition funnel_trend_actors ::
  "funnel_params \<Rightarrow> person_row list \<Rightarrow> (string \<rightharpoonup> int) \<Rightarrow> event_row list \<Rightarrow> actor_row list" where
  "funnel_trend_actors P persons e__pdi events =
     select_actors persons (source P (entrance_cohorts P (evaluated P e__pdi events)))"

section \<open>Notions of the specification\<close>

text \<open>
  \<open>latest r i\<close> is the resolved timestamp of step \<open>i\<close> of a row, \<open>within_window\<close> the
  admissibility of step \<open>i\<close> for the completion depth (anchored at the entrance), and
  \<open>smallest_timestamp\<close> the smallest timestamp of a list of rows, absent when there is none.
\<close>

definition latest :: "'a srow_scheme \<Rightarrow> nat \<Rightarrow> datetime option" where
  "latest r i = (if i = 0 then latest_0 r else if i = 1 then latest_1 r
                 else if i = 2 then latest_2 r else None)"

definition within_window :: "int \<Rightarrow> 'a srow_scheme \<Rightarrow> nat \<Rightarrow> bool" where
  "within_window W r i \<longleftrightarrow>
     (\<exists>t0 t. latest r 0 = Some t0 \<and> latest r i = Some t \<and> t \<le> t0 + W)"

definition smallest_timestamp :: "srow list \<Rightarrow> datetime option" where
  "smallest_timestamp xs = (if xs = [] then None else Some (Min (set (map timestamp xs))))"

definition per_step_duration :: "drow \<Rightarrow> nat \<Rightarrow> int option" where
  "per_step_duration r i = (if i = 1 then step_1_conversion_time r
                            else if i = 2 then step_2_conversion_time r else None)"

text \<open>Events of one person of team 2, for the examples.\<close>

definition ev :: "string \<Rightarrow> datetime \<Rightarrow> string \<Rightarrow> event_row" where
  "ev d t n = \<lparr>e_team_id = 2, e_timestamp = t, e_event = n, e_distinct_id = d\<rparr>"

definition day :: "int \<Rightarrow> datetime" where
  \<comment> \<open>Midnight of the n-th day after 2021-05-01.\<close>
  "day n = 1619827200000000 + toIntervalDay n"

section \<open>Window frames\<close>

text \<open>
  The minimum of a column over the frame of row \<open>i\<close>, the test that two rows of the window
  order are of one partition, and the value the middle SELECT leaves in \<open>latest_2\<close>.
\<close>

definition wmin :: "(srow \<Rightarrow> datetime option) \<Rightarrow> srow list \<Rightarrow> nat \<Rightarrow> datetime option" where
  "wmin f ws i = min_ch (map f (frame ws i))"

definition same_target :: "srow list \<Rightarrow> nat \<Rightarrow> nat \<Rightarrow> bool" where
  "same_target ws j i \<longleftrightarrow> aggregation_target (ws ! j) = aggregation_target (ws ! i)"

definition nulled_2 :: "srow list \<Rightarrow> nat \<Rightarrow> datetime option" where
  "nulled_2 ws i =
     (if ifNull (less_ch (wmin latest_2 ws i) (wmin latest_1 ws i)) False then None
      else wmin latest_2 ws i)"

text \<open>
  A row of the innermost SELECT carries its own timestamp in \<open>latest_k\<close> exactly when its
  step-k signal is set; a window order is a list of such rows in descending timestamps.
\<close>

definition classified :: "srow \<Rightarrow> bool" where
  "classified r \<longleftrightarrow>
     latest_0 r = (if step_0 r = 1 then Some (timestamp r) else None) \<and>
     latest_1 r = (if step_1 r = 1 then Some (timestamp r) else None) \<and>
     latest_2 r = (if step_2 r = 1 then Some (timestamp r) else None)"

definition window_order :: "srow list \<Rightarrow> bool" where
  "window_order ws \<longleftrightarrow> sorted (map (\<lambda>r. - timestamp r) ws) \<and> (\<forall>x\<in>set ws. classified x)"

section \<open>The window functions\<close>

lemma min_ch_None_iff: "min_ch xs = None \<longleftrightarrow> (\<forall>x\<in>set xs. x = None)"
  by (induction xs rule: min_ch.induct) (auto split: option.splits)

lemma min_ch_in: "min_ch xs = Some m \<Longrightarrow> Some m \<in> set xs"
  by (induction xs arbitrary: m rule: min_ch.induct)
     (auto split: option.splits if_splits simp: min_def min_ch_None_iff)

lemma min_ch_le: "min_ch xs = Some m \<Longrightarrow> Some v \<in> set xs \<Longrightarrow> m \<le> v"
  by (induction xs arbitrary: m rule: min_ch.induct)
     (auto split: option.splits simp: min_def min_ch_None_iff)

lemma min_ch_eqI:
  assumes "Some m \<in> set xs" "\<And>v. Some v \<in> set xs \<Longrightarrow> m \<le> v"
  shows "min_ch xs = Some m"
proof -
  from assms(1) have "min_ch xs \<noteq> None" by (auto simp: min_ch_None_iff)
  then obtain k where k: "min_ch xs = Some k" by auto
  from min_ch_in[OF k] assms(2) have "m \<le> k" by simp
  moreover from min_ch_le[OF k assms(1)] have "k \<le> m" .
  ultimately show ?thesis using k by simp
qed

lemma min_ch_Some_iff:
  "min_ch xs = Some m \<longleftrightarrow> Some m \<in> set xs \<and> (\<forall>v. Some v \<in> set xs \<longrightarrow> m \<le> v)"
  using min_ch_in min_ch_le min_ch_eqI by blast

lemma sorted_order_by: "sorted (map (\<lambda>r. - timestamp r) (order_by_timestamp_desc rows))"
  by (simp add: order_by_timestamp_desc_def)

lemma desc_nth:
  assumes "sorted (map (\<lambda>r. - timestamp r) ws)" "j \<le> i" "i < length ws"
  shows "timestamp (ws ! i) \<le> timestamp (ws ! j)"
  using sorted_nth_mono[OF assms(1), of j i] assms by simp

lemma in_take_Suc_iff:
  assumes "i < length ws"
  shows "x \<in> set (take (Suc i) ws) \<longleftrightarrow> (\<exists>j\<le>i. x = ws ! j)"
proof
  assume "x \<in> set (take (Suc i) ws)"
  then obtain j where "j < length (take (Suc i) ws)" "take (Suc i) ws ! j = x"
    by (auto simp: in_set_conv_nth)
  then show "\<exists>j\<le>i. x = ws ! j" using assms by (intro exI[of _ j]) auto
next
  assume "\<exists>j\<le>i. x = ws ! j"
  then obtain j where j: "j \<le> i" "x = ws ! j" by auto
  then have "j < length (take (Suc i) ws)" "take (Suc i) ws ! j = x" using assms by auto
  then show "x \<in> set (take (Suc i) ws)" by (metis nth_mem)
qed

lemma in_frame_iff:
  assumes "i < length ws"
  shows "x \<in> set (frame ws i) \<longleftrightarrow>
     (\<exists>j\<le>i. x = ws ! j \<and> aggregation_target (ws ! j) = aggregation_target (ws ! i))"
  using in_take_Suc_iff[OF assms] by (auto simp: frame_def)

lemma length_window_1: "length (window_1 rows) = length rows"
  by (simp add: window_1_def Let_def order_by_timestamp_desc_def)

lemma length_window_2: "length (window_2 rows) = length rows"
  by (simp add: window_2_def Let_def order_by_timestamp_desc_def)

lemma length_null_out: "length (null_out rows) = length rows"
  by (simp add: null_out_def)

lemma nth_window_1:
  assumes "i < length rows"
  shows "window_1 rows ! i =
     (order_by_timestamp_desc rows ! i)
       \<lparr>latest_1 := min_ch (map latest_1 (frame (order_by_timestamp_desc rows) i)),
        latest_2 := min_ch (map latest_2 (frame (order_by_timestamp_desc rows) i))\<rparr>"
  using assms by (simp add: window_1_def Let_def order_by_timestamp_desc_def)

lemma map_timestamp_window_1:
  "map timestamp (window_1 rows) = map timestamp (order_by_timestamp_desc rows)"
  by (rule nth_equalityI) (simp_all add: length_window_1 nth_window_1 order_by_timestamp_desc_def)

lemma map_timestamp_null_out: "map timestamp (null_out rows) = map timestamp rows"
  by (simp add: null_out_def)

lemma order_by_null_out_window_1:
  "order_by_timestamp_desc (null_out (window_1 rows)) = null_out (window_1 rows)"
proof -
  have "map (\<lambda>r. - timestamp r) (null_out (window_1 rows))
      = map uminus (map timestamp (null_out (window_1 rows)))" by simp
  also have "\<dots> = map uminus (map timestamp (order_by_timestamp_desc rows))"
    by (simp only: map_timestamp_null_out map_timestamp_window_1)
  also have "\<dots> = map (\<lambda>r. - timestamp r) (order_by_timestamp_desc rows)" by simp
  finally have "sorted (map (\<lambda>r. - timestamp r) (null_out (window_1 rows)))"
    by (simp add: sorted_order_by)
  then show ?thesis
    unfolding order_by_timestamp_desc_def by (rule sort_key_id_if_sorted)
qed

lemma wmin_Some_iff:
  assumes "i < length ws"
  shows "wmin f ws i = Some m \<longleftrightarrow>
     (\<exists>j\<le>i. same_target ws j i \<and> f (ws ! j) = Some m) \<and>
     (\<forall>j\<le>i. \<forall>v. same_target ws j i \<and> f (ws ! j) = Some v \<longrightarrow> m \<le> v)"
proof -
  have mem: "\<And>v. Some v \<in> set (map f (frame ws i)) \<longleftrightarrow>
      (\<exists>j\<le>i. same_target ws j i \<and> f (ws ! j) = Some v)"
    using in_frame_iff[OF assms] by (auto simp: same_target_def image_iff) metis
  show ?thesis unfolding wmin_def min_ch_Some_iff mem by blast
qed

lemma wmin_None_iff:
  assumes "i < length ws"
  shows "wmin f ws i = None \<longleftrightarrow> (\<forall>j\<le>i. same_target ws j i \<longrightarrow> f (ws ! j) = None)"
  unfolding wmin_def min_ch_None_iff using in_frame_iff[OF assms]
  by (auto simp: same_target_def)

lemma nth_null_out_window_1:
  assumes "i < length rows"
  shows "null_out (window_1 rows) ! i =
     (order_by_timestamp_desc rows ! i)
       \<lparr>latest_1 := wmin latest_1 (order_by_timestamp_desc rows) i,
        latest_2 := nulled_2 (order_by_timestamp_desc rows) i\<rparr>"
  using assms
  by (simp add: null_out_def length_window_1 nth_window_1 nulled_2_def wmin_def)

lemma nth_resolved_rows:
  assumes "i < length rows"
  shows "window_2 (null_out (window_1 rows)) ! i =
     (order_by_timestamp_desc rows ! i)
       \<lparr>latest_1 := wmin latest_1 (order_by_timestamp_desc rows) i,
        latest_2 := wmin latest_2 (null_out (window_1 rows)) i\<rparr>"
  using assms
  by (simp add: window_2_def Let_def order_by_null_out_window_1 length_null_out
      length_window_1 nth_null_out_window_1 wmin_def)

lemma same_target_null_out_window_1:
  assumes "i < length rows" "j \<le> i"
  shows "same_target (null_out (window_1 rows)) j i
     \<longleftrightarrow> same_target (order_by_timestamp_desc rows) j i"
  using assms by (simp add: same_target_def nth_null_out_window_1)

lemma latest_2_resolved_Some_iff:
  assumes "i < length rows"
  shows "wmin latest_2 (null_out (window_1 rows)) i = Some c \<longleftrightarrow>
     (\<exists>j\<le>i. same_target (order_by_timestamp_desc rows) j i
        \<and> nulled_2 (order_by_timestamp_desc rows) j = Some c) \<and>
     (\<forall>j\<le>i. \<forall>v. same_target (order_by_timestamp_desc rows) j i
        \<and> nulled_2 (order_by_timestamp_desc rows) j = Some v \<longrightarrow> c \<le> v)"
proof -
  have len: "i < length (null_out (window_1 rows))"
    using assms by (simp add: length_null_out length_window_1)
  have eq: "\<And>j. j \<le> i \<Longrightarrow> latest_2 (null_out (window_1 rows) ! j)
      = nulled_2 (order_by_timestamp_desc rows) j"
    using assms by (simp add: nth_null_out_window_1)
  show ?thesis
    unfolding wmin_Some_iff[OF len]
    using same_target_null_out_window_1[OF assms] eq by auto
qed

lemma classified_select_steps: "classified (select_steps ep)"
  by (simp add: classified_def select_steps_def Let_def ifNull_def equals_def)

lemma window_order_step_events:
  "window_order (order_by_timestamp_desc (step_events P e__pdi events))"
  unfolding window_order_def
  by (auto simp: sorted_order_by order_by_timestamp_desc_def step_events_def
      classified_select_steps)

lemma same_target_refl: "same_target ws i i"
  by (simp add: same_target_def)

lemma same_target_trans: "same_target ws k j \<Longrightarrow> same_target ws j i \<Longrightarrow> same_target ws k i"
  by (simp add: same_target_def)

lemma window_order_desc:
  assumes "window_order ws" "j \<le> i" "i < length ws"
  shows "timestamp (ws ! i) \<le> timestamp (ws ! j)"
  using assms by (auto simp: window_order_def intro: desc_nth)

lemma window_order_latest_1:
  assumes "window_order ws" "j < length ws"
  shows "latest_1 (ws ! j) = Some v \<longleftrightarrow> step_1 (ws ! j) = 1 \<and> timestamp (ws ! j) = v"
  using assms by (auto simp: window_order_def classified_def split: if_splits)

lemma window_order_latest_2:
  assumes "window_order ws" "j < length ws"
  shows "latest_2 (ws ! j) = Some v \<longleftrightarrow> step_2 (ws ! j) = 1 \<and> timestamp (ws ! j) = v"
  using assms by (auto simp: window_order_def classified_def split: if_splits)

lemma wmin_1_Some_iff:
  assumes "window_order ws" "i < length ws"
  shows "wmin latest_1 ws i = Some m \<longleftrightarrow>
     (\<exists>j\<le>i. same_target ws j i \<and> step_1 (ws ! j) = 1 \<and> timestamp (ws ! j) = m) \<and>
     (\<forall>j\<le>i. same_target ws j i \<and> step_1 (ws ! j) = 1 \<longrightarrow> m \<le> timestamp (ws ! j))"
proof -
  have "\<And>j v. j \<le> i \<Longrightarrow>
      latest_1 (ws ! j) = Some v \<longleftrightarrow> step_1 (ws ! j) = 1 \<and> timestamp (ws ! j) = v"
    using window_order_latest_1[OF assms(1)] assms(2) by simp
  then show ?thesis unfolding wmin_Some_iff[OF assms(2)] by auto
qed

lemma wmin_2_Some_iff:
  assumes "window_order ws" "i < length ws"
  shows "wmin latest_2 ws i = Some m \<longleftrightarrow>
     (\<exists>j\<le>i. same_target ws j i \<and> step_2 (ws ! j) = 1 \<and> timestamp (ws ! j) = m) \<and>
     (\<forall>j\<le>i. same_target ws j i \<and> step_2 (ws ! j) = 1 \<longrightarrow> m \<le> timestamp (ws ! j))"
proof -
  have "\<And>j v. j \<le> i \<Longrightarrow>
      latest_2 (ws ! j) = Some v \<longleftrightarrow> step_2 (ws ! j) = 1 \<and> timestamp (ws ! j) = v"
    using window_order_latest_2[OF assms(1)] assms(2) by simp
  then show ?thesis unfolding wmin_Some_iff[OF assms(2)] by auto
qed

lemma wmin_1_None_iff:
  assumes "window_order ws" "i < length ws"
  shows "wmin latest_1 ws i = None \<longleftrightarrow> (\<forall>j\<le>i. same_target ws j i \<longrightarrow> step_1 (ws ! j) \<noteq> 1)"
proof -
  have "\<And>j. j \<le> i \<Longrightarrow> latest_1 (ws ! j) = None \<longleftrightarrow> step_1 (ws ! j) \<noteq> 1"
    using assms by (auto simp: window_order_def classified_def)
  then show ?thesis unfolding wmin_None_iff[OF assms(2)] by auto
qed

lemma wmin_2_None_iff:
  assumes "window_order ws" "i < length ws"
  shows "wmin latest_2 ws i = None \<longleftrightarrow> (\<forall>j\<le>i. same_target ws j i \<longrightarrow> step_2 (ws ! j) \<noteq> 1)"
proof -
  have "\<And>j. j \<le> i \<Longrightarrow> latest_2 (ws ! j) = None \<longleftrightarrow> step_2 (ws ! j) \<noteq> 1"
    using assms by (auto simp: window_order_def classified_def)
  then show ?thesis unfolding wmin_None_iff[OF assms(2)] by auto
qed

text \<open>What a frame minimum is at least: the timestamp of its own row.\<close>

lemma wmin_1_ge_timestamp:
  assumes "window_order ws" "i < length ws" "wmin latest_1 ws i = Some b"
  shows "timestamp (ws ! i) \<le> b"
  using assms wmin_1_Some_iff[OF assms(1,2)] window_order_desc[OF assms(1) _ assms(2)] by auto

lemma wmin_2_ge_timestamp:
  assumes "window_order ws" "i < length ws" "wmin latest_2 ws i = Some b"
  shows "timestamp (ws ! i) \<le> b"
  using assms wmin_2_Some_iff[OF assms(1,2)] window_order_desc[OF assms(1) _ assms(2)] by auto

text \<open>A row of the frame has a smaller frame, so its minimum is no smaller.\<close>

lemma wmin_1_frame_mono:
  assumes w: "window_order ws" and i: "i < length ws" and j: "j \<le> i" "same_target ws j i"
    and b: "wmin latest_1 ws i = Some b" and b': "wmin latest_1 ws j = Some b'"
  shows "b \<le> b'"
proof -
  have jl: "j < length ws" using i j by simp
  from b' obtain k where k: "k \<le> j" "same_target ws k j" "step_1 (ws ! k) = 1"
      "timestamp (ws ! k) = b'"
    using wmin_1_Some_iff[OF w jl] by auto
  have "k \<le> i" "same_target ws k i" using k j same_target_trans by auto
  then show ?thesis using b k wmin_1_Some_iff[OF w i] by auto
qed

lemma nulled_2_Some:
  assumes "nulled_2 ws j = Some v"
  shows "wmin latest_2 ws j = Some v \<and> (\<forall>b'. wmin latest_1 ws j = Some b' \<longrightarrow> b' \<le> v)"
  using assms by (auto simp: nulled_2_def ifNull_def less_ch_def split: if_splits option.splits)

lemma nulled_2_ge_latest_1:
  assumes w: "window_order ws" and i: "i < length ws" and j: "j \<le> i" "same_target ws j i"
    and b: "wmin latest_1 ws i = Some b" and v: "nulled_2 ws j = Some v"
  shows "b \<le> v"
proof -
  have jl: "j < length ws" using i j by simp
  from nulled_2_Some[OF v] have m2: "wmin latest_2 ws j = Some v"
    and m1: "\<And>b'. wmin latest_1 ws j = Some b' \<Longrightarrow> b' \<le> v" by auto
  show ?thesis
  proof (cases "wmin latest_1 ws j")
    case (Some b')
    with m1 have "b' \<le> v" by simp
    moreover have "b \<le> b'" using wmin_1_frame_mono[OF w i j b Some] .
    ultimately show ?thesis by simp
  next
    case None
    from b obtain k where k: "k \<le> i" "same_target ws k i" "step_1 (ws ! k) = 1"
        "timestamp (ws ! k) = b"
      using wmin_1_Some_iff[OF w i] by auto
    have "\<not> k \<le> j"
    proof
      assume "k \<le> j"
      moreover have "same_target ws k j"
        using k(2) j(2) by (simp add: same_target_def)
      ultimately show False using None k(3) wmin_1_None_iff[OF w jl] by auto
    qed
    then have "j \<le> k" by simp
    then have "timestamp (ws ! k) \<le> timestamp (ws ! j)"
      using window_order_desc[OF w _ ] k(1) i by simp
    moreover have "timestamp (ws ! j) \<le> v" using wmin_2_ge_timestamp[OF w jl m2] .
    ultimately show ?thesis using k(4) by simp
  qed
qed

lemma wmin_1_exists:
  assumes w: "window_order ws" and i: "i < length ws"
    and k: "k \<le> i" "same_target ws k i" "step_1 (ws ! k) = 1"
  obtains m where "wmin latest_1 ws i = Some m" "m \<le> timestamp (ws ! k)"
proof -
  have "wmin latest_1 ws i \<noteq> None" using wmin_1_None_iff[OF w i] k by auto
  then obtain m where m: "wmin latest_1 ws i = Some m" by auto
  then have "m \<le> timestamp (ws ! k)" using wmin_1_Some_iff[OF w i] k by auto
  with m that show ?thesis by blast
qed

lemma wmin_2_exists:
  assumes w: "window_order ws" and i: "i < length ws"
    and k: "k \<le> i" "same_target ws k i" "step_2 (ws ! k) = 1"
  obtains m where "wmin latest_2 ws i = Some m" "m \<le> timestamp (ws ! k)"
proof -
  have "wmin latest_2 ws i \<noteq> None" using wmin_2_None_iff[OF w i] k by auto
  then obtain m where m: "wmin latest_2 ws i = Some m" by auto
  then have "m \<le> timestamp (ws ! k)" using wmin_2_Some_iff[OF w i] k by auto
  with m that show ?thesis by blast
qed

lemma nulled_2_keeps:
  assumes "wmin latest_2 ws j = Some v" "wmin latest_1 ws j = Some b'" "b' \<le> v"
  shows "nulled_2 ws j = Some v"
  using assms by (simp add: nulled_2_def ifNull_def less_ch_def)

text \<open>Every step-2 row of the frame at or after the step-1 minimum is covered by a kept value.\<close>

lemma nulled_2_cover:
  assumes w: "window_order ws" and i: "i < length ws"
    and b: "wmin latest_1 ws i = Some b"
    and j': "j' \<le> i" "same_target ws j' i" "step_2 (ws ! j') = 1" "b \<le> timestamp (ws ! j')"
  shows "\<exists>j\<le>i. same_target ws j i \<and> (\<exists>v. nulled_2 ws j = Some v \<and> v \<le> timestamp (ws ! j'))"
proof -
  from b obtain k where k: "k \<le> i" "same_target ws k i" "step_1 (ws ! k) = 1"
      "timestamp (ws ! k) = b"
    using wmin_1_Some_iff[OF w i] by auto
  have kl: "k < length ws" and j'l: "j' < length ws" using k(1) j'(1) i by auto
  have kj': "same_target ws j' k" "same_target ws k j'"
    using k(2) j'(2) by (simp_all add: same_target_def)
  show ?thesis
  proof (cases "j' \<le> k")
    case True
    obtain v where v: "wmin latest_2 ws k = Some v" "v \<le> timestamp (ws ! j')"
      using wmin_2_exists[OF w kl True kj'(1) j'(3)] by blast
    obtain b' where b': "wmin latest_1 ws k = Some b'" "b' \<le> timestamp (ws ! k)"
      using wmin_1_exists[OF w kl le_refl same_target_refl k(3)] by blast
    have "timestamp (ws ! k) \<le> v" using wmin_2_ge_timestamp[OF w kl v(1)] .
    with b'(2) have "b' \<le> v" by simp
    then have "nulled_2 ws k = Some v" using nulled_2_keeps[OF v(1) b'(1)] by simp
    with v(2) k(1,2) show ?thesis by blast
  next
    case False
    then have kle: "k \<le> j'" by simp
    obtain v where v: "wmin latest_2 ws j' = Some v" "v \<le> timestamp (ws ! j')"
      using wmin_2_exists[OF w j'l le_refl same_target_refl j'(3)] by blast
    obtain b' where b': "wmin latest_1 ws j' = Some b'" "b' \<le> timestamp (ws ! k)"
      using wmin_1_exists[OF w j'l kle kj'(2) k(3)] by blast
    have "timestamp (ws ! j') \<le> v" using wmin_2_ge_timestamp[OF w j'l v(1)] .
    with b'(2) k(4) j'(4) have "b' \<le> v" by simp
    then have "nulled_2 ws j' = Some v" using nulled_2_keeps[OF v(1) b'(1)] by simp
    with v(2) j'(1,2) show ?thesis by blast
  qed
qed

text \<open>Every kept value is the timestamp of a step-2 row of the frame, at or after the
  step-1 minimum.\<close>

lemma nulled_2_sound:
  assumes w: "window_order ws" and i: "i < length ws"
    and b: "wmin latest_1 ws i = Some b"
    and j: "j \<le> i" "same_target ws j i" and v: "nulled_2 ws j = Some v"
  shows "b \<le> v \<and> (\<exists>j'\<le>i. same_target ws j' i \<and> step_2 (ws ! j') = 1 \<and> timestamp (ws ! j') = v)"
proof -
  have jl: "j < length ws" using i j by simp
  have "b \<le> v" using nulled_2_ge_latest_1[OF w i j b v] .
  moreover from nulled_2_Some[OF v] have "wmin latest_2 ws j = Some v" by simp
  then obtain j' where j': "j' \<le> j" "same_target ws j' j" "step_2 (ws ! j') = 1"
      "timestamp (ws ! j') = v"
    using wmin_2_Some_iff[OF w jl] by auto
  have "j' \<le> i" "same_target ws j' i" using j j' same_target_trans by auto
  ultimately show ?thesis using j'(3,4) by blast
qed

lemma resolved_latest_2_Some_iff:
  assumes w: "window_order (order_by_timestamp_desc rows)" and i: "i < length rows"
    and b: "wmin latest_1 (order_by_timestamp_desc rows) i = Some b"
  shows "wmin latest_2 (null_out (window_1 rows)) i = Some c \<longleftrightarrow>
     (\<exists>j\<le>i. same_target (order_by_timestamp_desc rows) j i
         \<and> step_2 (order_by_timestamp_desc rows ! j) = 1
         \<and> b \<le> timestamp (order_by_timestamp_desc rows ! j)
         \<and> timestamp (order_by_timestamp_desc rows ! j) = c) \<and>
     (\<forall>j\<le>i. same_target (order_by_timestamp_desc rows) j i
         \<and> step_2 (order_by_timestamp_desc rows ! j) = 1
         \<and> b \<le> timestamp (order_by_timestamp_desc rows ! j)
         \<longrightarrow> c \<le> timestamp (order_by_timestamp_desc rows ! j))"
  (is "?L \<longleftrightarrow> ?E \<and> ?A")
proof -
  define ws where "ws = order_by_timestamp_desc rows"
  have il: "i < length ws" using i by (simp add: ws_def order_by_timestamp_desc_def)
  note w' = w[folded ws_def] and b' = b[folded ws_def]
  note char = latest_2_resolved_Some_iff[OF i, of c, folded ws_def]
  show ?thesis unfolding ws_def[symmetric]
  proof
    assume L: "wmin latest_2 (null_out (window_1 rows)) i = Some c"
    from L char obtain j where j: "j \<le> i" "same_target ws j i" "nulled_2 ws j = Some c"
      by auto
    from L char have least: "\<And>j v. j \<le> i \<Longrightarrow> same_target ws j i \<Longrightarrow> nulled_2 ws j = Some v
        \<Longrightarrow> c \<le> v" by blast
    from nulled_2_sound[OF w' il b' j] have E: "\<exists>j\<le>i. same_target ws j i
        \<and> step_2 (ws ! j) = 1 \<and> b \<le> timestamp (ws ! j) \<and> timestamp (ws ! j) = c"
      by auto
    have A: "\<forall>j\<le>i. same_target ws j i \<and> step_2 (ws ! j) = 1 \<and> b \<le> timestamp (ws ! j)
        \<longrightarrow> c \<le> timestamp (ws ! j)"
    proof (intro allI impI)
      fix j' assume "j' \<le> i" and h: "same_target ws j' i \<and> step_2 (ws ! j') = 1 \<and> b \<le> timestamp (ws ! j')"
      then obtain j v where "j \<le> i" "same_target ws j i" "nulled_2 ws j = Some v"
          "v \<le> timestamp (ws ! j')"
        using nulled_2_cover[OF w' il b', of j'] by blast
      then show "c \<le> timestamp (ws ! j')" using least[of j v] by simp
    qed
    from E A show "(\<exists>j\<le>i. same_target ws j i \<and> step_2 (ws ! j) = 1 \<and> b \<le> timestamp (ws ! j)
        \<and> timestamp (ws ! j) = c) \<and>
        (\<forall>j\<le>i. same_target ws j i \<and> step_2 (ws ! j) = 1 \<and> b \<le> timestamp (ws ! j)
        \<longrightarrow> c \<le> timestamp (ws ! j))" by blast
  next
    assume R: "(\<exists>j\<le>i. same_target ws j i \<and> step_2 (ws ! j) = 1 \<and> b \<le> timestamp (ws ! j)
        \<and> timestamp (ws ! j) = c) \<and>
        (\<forall>j\<le>i. same_target ws j i \<and> step_2 (ws ! j) = 1 \<and> b \<le> timestamp (ws ! j)
        \<longrightarrow> c \<le> timestamp (ws ! j))"
    then obtain j' where j': "j' \<le> i" "same_target ws j' i" "step_2 (ws ! j') = 1"
        "b \<le> timestamp (ws ! j')" "timestamp (ws ! j') = c" by blast
    from R have least: "\<And>j. j \<le> i \<Longrightarrow> same_target ws j i \<Longrightarrow> step_2 (ws ! j) = 1
        \<Longrightarrow> b \<le> timestamp (ws ! j) \<Longrightarrow> c \<le> timestamp (ws ! j)" by blast
    obtain j v where jv: "j \<le> i" "same_target ws j i" "nulled_2 ws j = Some v" "v \<le> c"
      using nulled_2_cover[OF w' il b' j'(1-4)] j'(5) by blast
    have lower: "c \<le> u" if "k \<le> i" "same_target ws k i" "nulled_2 ws k = Some u" for k u
    proof -
      from nulled_2_sound[OF w' il b' that] obtain k' where "b \<le> u" "k' \<le> i"
          "same_target ws k' i" "step_2 (ws ! k') = 1" "timestamp (ws ! k') = u" by blast
      then show ?thesis using least[of k'] by simp
    qed
    from lower[OF jv(1,2,3)] jv(4) have "v = c" by simp
    with jv lower show "wmin latest_2 (null_out (window_1 rows)) i = Some c"
      unfolding char by blast
  qed
qed

lemma resolved_chain_1_2:
  assumes w: "window_order (order_by_timestamp_desc rows)" and i: "i < length rows"
    and b: "wmin latest_1 (order_by_timestamp_desc rows) i = Some b"
    and c: "wmin latest_2 (null_out (window_1 rows)) i = Some c"
  shows "b \<le> c"
  using c unfolding resolved_latest_2_Some_iff[OF w i b] by auto

section \<open>Resolved and evaluated rows\<close>

lemma length_resolved:
  "length (resolved P e__pdi events) = length (step_events P e__pdi events)"
  by (simp add: resolved_def length_window_2 length_null_out length_window_1)

lemma length_order_by: "length (order_by_timestamp_desc rows) = length rows"
  by (simp add: order_by_timestamp_desc_def)

lemma resolved_chain_nth:
  assumes i: "i < length (step_events P e__pdi events)"
  defines "x \<equiv> resolved P e__pdi events ! i"
  shows "(step_0 x = 1 \<longrightarrow> latest_0 x = Some (timestamp x))
     \<and> (\<forall>a b. latest_0 x = Some a \<and> latest_1 x = Some b \<longrightarrow> a \<le> b)
     \<and> (\<forall>b c. latest_1 x = Some b \<and> latest_2 x = Some c \<longrightarrow> b \<le> c)"
proof -
  define rows where "rows = step_events P e__pdi events"
  define ws where "ws = order_by_timestamp_desc rows"
  have w: "window_order ws" unfolding ws_def rows_def by (rule window_order_step_events)
  have il: "i < length ws" using i by (simp add: ws_def rows_def length_order_by)
  have i': "i < length rows" using i by (simp add: rows_def)
  have x: "x = (ws ! i)\<lparr>latest_1 := wmin latest_1 ws i,
      latest_2 := wmin latest_2 (null_out (window_1 rows)) i\<rparr>"
    unfolding x_def resolved_def ws_def rows_def[symmetric] using nth_resolved_rows[OF i'] .
  have c: "classified (ws ! i)" using w il by (simp add: window_order_def)
  have p0: "step_0 x = 1 \<longrightarrow> latest_0 x = Some (timestamp x)"
    using c by (simp add: x classified_def)
  have p1: "\<forall>a b. latest_0 x = Some a \<and> latest_1 x = Some b \<longrightarrow> a \<le> b"
  proof (intro allI impI)
    fix a b assume h: "latest_0 x = Some a \<and> latest_1 x = Some b"
    then have "a = timestamp (ws ! i)" using c by (auto simp: x classified_def split: if_splits)
    moreover have "wmin latest_1 ws i = Some b" using h by (simp add: x)
    ultimately show "a \<le> b" using wmin_1_ge_timestamp[OF w il] by simp
  qed
  have p2: "\<forall>b c. latest_1 x = Some b \<and> latest_2 x = Some c \<longrightarrow> b \<le> c"
  proof (intro allI impI)
    fix b c assume h: "latest_1 x = Some b \<and> latest_2 x = Some c"
    then have "wmin latest_1 ws i = Some b" "wmin latest_2 (null_out (window_1 rows)) i = Some c"
      by (simp_all add: x)
    then show "b \<le> c" using resolved_chain_1_2[OF w[unfolded ws_def] i'] by (simp add: ws_def)
  qed
  from p0 p1 p2 show ?thesis by blast
qed

lemma resolved_chain:
  assumes "x \<in> set (resolved P e__pdi events)"
  shows "(step_0 x = 1 \<longrightarrow> latest_0 x = Some (timestamp x))
     \<and> (\<forall>a b. latest_0 x = Some a \<and> latest_1 x = Some b \<longrightarrow> a \<le> b)
     \<and> (\<forall>b c. latest_1 x = Some b \<and> latest_2 x = Some c \<longrightarrow> b \<le> c)"
proof -
  from assms obtain i where "i < length (resolved P e__pdi events)"
      "x = resolved P e__pdi events ! i" by (auto simp: in_set_conv_nth)
  then show ?thesis using resolved_chain_nth[of i P e__pdi events]
    by (simp add: length_resolved)
qed

lemma evaluated_row:
  assumes "r \<in> set (evaluated P e__pdi events)"
  obtains x where "x \<in> set (resolved P e__pdi events)" "step_0 x = 1"
    "r = depth_evaluator (conversion_window P) x"
  using assms by (auto simp: evaluated_def evaluated_rows_def ifNull_def equals_def)

lemma depth_evaluator_fields:
  "latest_0 (depth_evaluator W x) = latest_0 x"
  "latest_1 (depth_evaluator W x) = latest_1 x"
  "latest_2 (depth_evaluator W x) = latest_2 x"
  "step_0 (depth_evaluator W x) = step_0 x"
  "timestamp (depth_evaluator W x) = timestamp x"
  "aggregation_target (depth_evaluator W x) = aggregation_target x"
  by (simp_all add: depth_evaluator_def srow.defs)

lemma depth_Max:
  "Max {k::nat. k \<le> 2 \<and> (\<forall>i. 1 \<le> i \<and> i \<le> k \<longrightarrow> Q i)}
     = (if Q 1 then if Q 2 then 2 else 1 else 0)"
proof -
  have p0: "(\<forall>i::nat. 1 \<le> i \<and> i \<le> 0 \<longrightarrow> Q i) \<longleftrightarrow> True" by auto
  have p1: "(\<forall>i::nat. 1 \<le> i \<and> i \<le> 1 \<longrightarrow> Q i) \<longleftrightarrow> Q 1"
  proof -
    have "\<And>i::nat. 1 \<le> i \<and> i \<le> 1 \<longleftrightarrow> i = 1" by auto
    then show ?thesis by simp
  qed
  have p2: "(\<forall>i::nat. 1 \<le> i \<and> i \<le> 2 \<longrightarrow> Q i) \<longleftrightarrow> Q 1 \<and> Q 2"
  proof -
    have "\<And>i::nat. 1 \<le> i \<and> i \<le> 2 \<longleftrightarrow> i = 1 \<or> i = 2" by auto
    then show ?thesis by auto
  qed
  have "{k::nat. k \<le> 2 \<and> (\<forall>i. 1 \<le> i \<and> i \<le> k \<longrightarrow> Q i)}
      = {k. (k = 0 \<or> k = 1 \<or> k = 2) \<and> (\<forall>i. 1 \<le> i \<and> i \<le> k \<longrightarrow> Q i)}"
    by (rule Collect_cong) auto
  also have "\<dots> = {k. k = 0 \<or> (k = 1 \<and> Q 1) \<or> (k = 2 \<and> Q 1 \<and> Q 2)}"
    using p0 p1 p2 by (intro Collect_cong) (metis (full_types))
  also have "\<dots> = (if Q 1 then if Q 2 then {0, 1, 2} else {0, 1} else {0})"
    by auto
  finally show ?thesis by simp
qed

lemma steps_depth_evaluator:
  assumes "latest_0 x = Some a" "\<And>b. latest_1 x = Some b \<Longrightarrow> a \<le> b"
    "\<And>b c. latest_1 x = Some b \<Longrightarrow> latest_2 x = Some c \<Longrightarrow> b \<le> c"
  shows "steps (depth_evaluator W x)
     = (if within_window W x 1 then if within_window W x 2 then 3 else 2 else 1)"
  using assms
  by (cases "latest_1 x"; cases "latest_2 x")
     (auto simp: depth_evaluator_def srow.defs ifNull_def lessOrEquals_def plus_ch_def
       within_window_def latest_def)

lemma latest_depth_evaluator: "latest (depth_evaluator W x) i = latest x i"
  by (simp add: latest_def depth_evaluator_fields)

lemma within_window_depth_evaluator:
  "within_window W' (depth_evaluator W x) i = within_window W' x i"
  by (simp add: within_window_def latest_depth_evaluator)

section \<open>Depth Evaluator\<close>

text \<open>
  Claim C7. For a fixed row with fixed resolved timestamps, the completed-step count is
  monotone in the conversion window: with a window \<open>W'\<close> at least \<open>W\<close> the count is at
  least the count computed with \<open>W\<close>.
\<close>

theorem steps_monotone_in_window:
  "W \<le> W' \<Longrightarrow> steps (depth_evaluator W r) \<le> steps (depth_evaluator W' r)"
  by (cases "latest_0 r"; cases "latest_1 r"; cases "latest_2 r")
     (auto simp: depth_evaluator_def srow.defs ifNull_def lessOrEquals_def plus_ch_def)

theorem steps_monotone_in_window_witness:
  "toIntervalDay 1 \<le> toIntervalDay 14
   \<and> steps (depth_evaluator (toIntervalDay 1)
        \<lparr>aggregation_target = 1, timestamp = day 0, step_0 = 1, latest_0 = Some (day 0),
         step_1 = 0, latest_1 = Some (day 2), step_2 = 0, latest_2 = None\<rparr>)
      \<le> steps (depth_evaluator (toIntervalDay 14)
        \<lparr>aggregation_target = 1, timestamp = day 0, step_0 = 1, latest_0 = Some (day 0),
         step_1 = 0, latest_1 = Some (day 2), step_2 = 0, latest_2 = None\<rparr>)"
proof -
  have h: "toIntervalDay 1 \<le> toIntervalDay 14" by (simp add: toIntervalDay_def)
  show ?thesis by (rule conjI[OF h steps_monotone_in_window[OF h]])
qed

text \<open>
  Claim C1, amended. For every entrance candidate of the query, \<open>steps\<close> is one more than the
  largest \<open>k\<close> from 0 to N - 1 = 2 such that every step \<open>i\<close> from 1 to \<open>k\<close>, both
  included, has a resolved timestamp within the conversion window of the entrance timestamp
  \<open>latest 0\<close>: step 0 is counted with the steps reached after it. When step 1 is not within
  the window the count is 1, and the count is always between 1 and N.
\<close>

theorem steps_completed_depth:
  assumes "r \<in> set (evaluated P e__pdi events)"
  shows "steps r = 1 + int (Max {k. int k \<le> total_steps - 1
                           \<and> (\<forall>i. 1 \<le> i \<and> i \<le> k \<longrightarrow> within_window (conversion_window P) r i)})
     \<and> (\<not> within_window (conversion_window P) r 1 \<longrightarrow> steps r = 1)
     \<and> 1 \<le> steps r \<and> steps r \<le> total_steps"
proof -
  from assms obtain x where x: "x \<in> set (resolved P e__pdi events)" "step_0 x = 1"
    "r = depth_evaluator (conversion_window P) x" by (rule evaluated_row)
  from resolved_chain[OF x(1)] x(2)
  have c: "latest_0 x = Some (timestamp x)" "\<And>b. latest_1 x = Some b \<Longrightarrow> timestamp x \<le> b"
    "\<And>b c. latest_1 x = Some b \<Longrightarrow> latest_2 x = Some c \<Longrightarrow> b \<le> c" by auto
  have s: "steps r = (if within_window (conversion_window P) r 1
      then if within_window (conversion_window P) r 2 then 3 else 2 else 1)"
    unfolding x(3) within_window_depth_evaluator by (rule steps_depth_evaluator[OF c])
  have k2: "\<And>k::nat. int k \<le> total_steps - 1 \<longleftrightarrow> k \<le> 2" by (auto simp: total_steps_def)
  show ?thesis unfolding k2 depth_Max using s by (simp add: total_steps_def)
qed

theorem steps_completed_depth_witness:
  "\<lparr>aggregation_target = 1, timestamp = day 0, step_0 = 1,
      latest_0 = Some (day 0), step_1 = 0, latest_1 = Some (day 1),
      step_2 = 0, latest_2 = Some (day 2), steps = 3,
      step_1_conversion_time = Some 86400, step_2_conversion_time = Some 86400\<rparr>
    \<in> set (evaluated returns_recordings [''d1'' \<mapsto> 1]
        [ev ''d1'' (day 0) ''step one'', ev ''d1'' (day 1) ''step two'',
         ev ''d1'' (day 2) ''step three''])
   \<and> 3 = 1 + int (Max {k. int k \<le> total_steps - 1
          \<and> (\<forall>i. 1 \<le> i \<and> i \<le> k \<longrightarrow> within_window (conversion_window returns_recordings)
      \<lparr>aggregation_target = 1, timestamp = day 0, step_0 = 1,
      latest_0 = Some (day 0), step_1 = 0, latest_1 = Some (day 1),
      step_2 = 0, latest_2 = Some (day 2), steps = 3,
      step_1_conversion_time = Some 86400, step_2_conversion_time = Some 86400\<rparr> i)})"
proof -
  have m: "\<lparr>aggregation_target = 1, timestamp = day 0, step_0 = 1,
      latest_0 = Some (day 0), step_1 = 0, latest_1 = Some (day 1),
      step_2 = 0, latest_2 = Some (day 2), steps = 3,
      step_1_conversion_time = Some 86400, step_2_conversion_time = Some 86400\<rparr>
    \<in> set (evaluated returns_recordings [''d1'' \<mapsto> 1]
        [ev ''d1'' (day 0) ''step one'', ev ''d1'' (day 1) ''step two'',
         ev ''d1'' (day 2) ''step three''])" by code_simp
  from steps_completed_depth[OF m] m show ?thesis by simp
qed

text \<open>
  Claim C1 takes \<open>steps\<close> to be the largest \<open>k\<close> such that every step \<open>i\<close> from 1 to \<open>k\<close>
  has a resolved timestamp within the window of the entrance. For the entrance that reaches
  step one, step two and step three on consecutive days that \<open>k\<close> is 2 (there is no step 3),
  and the query counts 3.
\<close>

theorem steps_completed_depth_counterexample:
  "\<lparr>aggregation_target = 1, timestamp = day 0, step_0 = 1,
      latest_0 = Some (day 0), step_1 = 0, latest_1 = Some (day 1),
      step_2 = 0, latest_2 = Some (day 2), steps = 3,
      step_1_conversion_time = Some 86400, step_2_conversion_time = Some 86400\<rparr>
    \<in> set (evaluated returns_recordings [''d1'' \<mapsto> 1]
        [ev ''d1'' (day 0) ''step one'', ev ''d1'' (day 1) ''step two'',
         ev ''d1'' (day 2) ''step three''])
   \<and> Max {k. \<forall>i. 1 \<le> i \<and> i \<le> k \<longrightarrow> within_window (conversion_window returns_recordings)
      \<lparr>aggregation_target = 1, timestamp = day 0, step_0 = 1,
      latest_0 = Some (day 0), step_1 = 0, latest_1 = Some (day 1),
      step_2 = 0, latest_2 = Some (day 2), steps = 3,
      step_1_conversion_time = Some 86400, step_2_conversion_time = Some 86400\<rparr> i} = 2"
proof -
  let ?r = "\<lparr>aggregation_target = 1, timestamp = day 0, step_0 = 1,
      latest_0 = Some (day 0), step_1 = 0, latest_1 = Some (day 1),
      step_2 = 0, latest_2 = Some (day 2), steps = 3,
      step_1_conversion_time = Some 86400, step_2_conversion_time = Some 86400\<rparr>"
  let ?Q = "within_window (conversion_window returns_recordings) ?r"
  have m: "?r \<in> set (evaluated returns_recordings [''d1'' \<mapsto> 1]
        [ev ''d1'' (day 0) ''step one'', ev ''d1'' (day 1) ''step two'',
         ev ''d1'' (day 2) ''step three''])" by code_simp
  have q1: "?Q 1" and q2: "?Q 2"
    by (simp_all add: within_window_def latest_def returns_recordings_def recorded_def
        day_def toIntervalDay_def)
  have q3: "\<not> ?Q 3" by (simp add: within_window_def latest_def)
  have "{k. \<forall>i. 1 \<le> i \<and> i \<le> k \<longrightarrow> ?Q i} = {0, 1, 2}"
  proof (intro set_eqI iffI)
    fix k assume "k \<in> {k. \<forall>i. 1 \<le> i \<and> i \<le> k \<longrightarrow> ?Q i}"
    then have "\<not> 3 \<le> k" using q3 by auto
    then show "k \<in> {0, 1, 2}" by auto
  next
    fix k :: nat assume "k \<in> {0, 1, 2}"
    then have "\<And>i. 1 \<le> i \<and> i \<le> k \<Longrightarrow> i = 1 \<or> i = 2" by auto
    then show "k \<in> {k. \<forall>i. 1 \<le> i \<and> i \<le> k \<longrightarrow> ?Q i}" using q1 q2 by auto
  qed
  then have "Max {k. \<forall>i. 1 \<le> i \<and> i \<le> k \<longrightarrow> ?Q i} = 2" by simp
  with m show ?thesis by (rule conjI)
qed

lemma step_1_conversion_time_depth_evaluator:
  "step_1_conversion_time (depth_evaluator W x) =
     (case latest_0 x of None \<Rightarrow> None
      | Some a \<Rightarrow> (case latest_1 x of None \<Rightarrow> None
          | Some b \<Rightarrow> if b \<le> a + W then dateDiff_second (Some a) (Some b) else None))"
  by (simp add: depth_evaluator_def srow.defs ifNull_def isNotNull_def lessOrEquals_def
      plus_ch_def split: option.splits)

lemma step_2_conversion_time_depth_evaluator:
  "step_2_conversion_time (depth_evaluator W x) =
     (case latest_1 x of None \<Rightarrow> None
      | Some a \<Rightarrow> (case latest_2 x of None \<Rightarrow> None
          | Some b \<Rightarrow> if b \<le> a + W then dateDiff_second (Some a) (Some b) else None))"
  by (simp add: depth_evaluator_def srow.defs ifNull_def isNotNull_def lessOrEquals_def
      plus_ch_def split: option.splits)

lemma dateDiff_second_Some:
  "dateDiff_second (Some a) (Some b) = Some (b div 1000000 - a div 1000000)"
  by (simp add: dateDiff_second_def)

lemma duration_anchor:
  fixes d :: "int option" and p q :: "datetime option"
  assumes "d = (case p of None \<Rightarrow> None
      | Some a \<Rightarrow> (case q of None \<Rightarrow> None
          | Some b \<Rightarrow> if b \<le> a + W then dateDiff_second (Some a) (Some b) else None))"
  shows "d = (if \<exists>a b. p = Some a \<and> q = Some b \<and> b \<le> a + W then dateDiff_second p q else None)
     \<and> (d \<noteq> None \<longleftrightarrow> (\<exists>a b. p = Some a \<and> q = Some b \<and> b \<le> a + W))"
  unfolding assms by (cases p; cases q) (auto simp: dateDiff_second_Some)

text \<open>
  Claim C3. For every entrance candidate and step \<open>i\<close> = 1, 2 the per-step duration is
  populated exactly when \<open>latest i\<close> and \<open>latest (i - 1)\<close> are present and \<open>latest i\<close> is
  within the conversion window of \<open>latest (i - 1)\<close>, the previous step and not the entrance;
  it is then the time from \<open>latest (i - 1)\<close> to \<open>latest i\<close>, in the seconds of
  \<^verbatim>\<open>dateDiff('second', _, _)\<close>.
\<close>

theorem per_step_duration_previous_anchor:
  assumes "r \<in> set (evaluated P e__pdi events)" and "i = 1 \<or> i = 2"
  shows "per_step_duration r i =
       (if \<exists>a b. latest r (i - 1) = Some a \<and> latest r i = Some b \<and> b \<le> a + conversion_window P
        then dateDiff_second (latest r (i - 1)) (latest r i) else None)
     \<and> (per_step_duration r i \<noteq> None \<longleftrightarrow>
         (\<exists>a b. latest r (i - 1) = Some a \<and> latest r i = Some b \<and> b \<le> a + conversion_window P))"
proof -
  from assms(1) obtain x where x: "r = depth_evaluator (conversion_window P) x"
    by (rule evaluated_row)
  from assms(2) show ?thesis
  proof
    assume i: "i = 1"
    have "per_step_duration r i = (case latest r (i - 1) of None \<Rightarrow> None
      | Some a \<Rightarrow> (case latest r i of None \<Rightarrow> None
          | Some b \<Rightarrow> if b \<le> a + conversion_window P then dateDiff_second (Some a) (Some b) else None))"
      by (simp add: i x per_step_duration_def latest_def depth_evaluator_fields
          step_1_conversion_time_depth_evaluator cong: option.case_cong)
    then show ?thesis by (rule duration_anchor)
  next
    assume i: "i = 2"
    have "per_step_duration r i = (case latest r (i - 1) of None \<Rightarrow> None
      | Some a \<Rightarrow> (case latest r i of None \<Rightarrow> None
          | Some b \<Rightarrow> if b \<le> a + conversion_window P then dateDiff_second (Some a) (Some b) else None))"
      by (simp add: i x per_step_duration_def latest_def depth_evaluator_fields
          step_2_conversion_time_depth_evaluator cong: option.case_cong)
    then show ?thesis by (rule duration_anchor)
  qed
qed

theorem per_step_duration_previous_anchor_witness:
  "\<lparr>aggregation_target = 1, timestamp = day 0, step_0 = 1,
      latest_0 = Some (day 0), step_1 = 0, latest_1 = Some (day 1),
      step_2 = 0, latest_2 = Some (day 2), steps = 3,
      step_1_conversion_time = Some 86400, step_2_conversion_time = Some 86400\<rparr>
    \<in> set (evaluated returns_recordings [''d1'' \<mapsto> 1]
        [ev ''d1'' (day 0) ''step one'', ev ''d1'' (day 1) ''step two'',
         ev ''d1'' (day 2) ''step three''])
   \<and> per_step_duration \<lparr>aggregation_target = 1, timestamp = day 0, step_0 = 1,
      latest_0 = Some (day 0), step_1 = 0, latest_1 = Some (day 1),
      step_2 = 0, latest_2 = Some (day 2), steps = 3,
      step_1_conversion_time = Some 86400, step_2_conversion_time = Some 86400\<rparr> 2
     = dateDiff_second (Some (day 1)) (Some (day 2))"
proof -
  have m: "\<lparr>aggregation_target = 1, timestamp = day 0, step_0 = 1,
      latest_0 = Some (day 0), step_1 = 0, latest_1 = Some (day 1),
      step_2 = 0, latest_2 = Some (day 2), steps = 3,
      step_1_conversion_time = Some 86400, step_2_conversion_time = Some 86400\<rparr>
    \<in> set (evaluated returns_recordings [''d1'' \<mapsto> 1]
        [ev ''d1'' (day 0) ''step one'', ev ''d1'' (day 1) ''step two'',
         ev ''d1'' (day 2) ''step three''])" by code_simp
  have i: "(2::nat) = 1 \<or> (2::nat) = 2" by simp
  have w: "day 2 \<le> day 1 + conversion_window returns_recordings" by code_simp
  from per_step_duration_previous_anchor[OF m i] w m show ?thesis
    by (simp add: latest_def)
qed

text \<open>
  Claim C10. There are entrance candidates of the three-step funnel whose \<open>latest 2\<close> is
  within the conversion window of \<open>latest 1\<close> but not of \<open>latest 0\<close>: the duration of step 2
  is populated although the completed-step count is 2. With the seven days of events of the
  recorded queries this happens for a window of one day; with the recorded window of 14 days
  it takes a longer date range.
\<close>

theorem duration_without_credit:
  "(\<exists>r a b c.
      r \<in> set (evaluated (returns_recordings\<lparr>conversion_window := toIntervalDay 1\<rparr>)
             [''d1'' \<mapsto> 1]
             [ev ''d1'' (day 0) ''step one'', ev ''d1'' (day 1) ''step two'',
              ev ''d1'' (day 2) ''step three''])
      \<and> latest r 0 = Some a \<and> latest r 1 = Some b \<and> latest r 2 = Some c
      \<and> c \<le> b + toIntervalDay 1 \<and> a + toIntervalDay 1 < c
      \<and> steps r = 2 \<and> per_step_duration r 2 = Some 86400)
   \<and> (\<exists>r a b c.
      r \<in> set (evaluated (returns_recordings\<lparr>date_to := day 30\<rparr>)
             [''d1'' \<mapsto> 1]
             [ev ''d1'' (day 0) ''step one'', ev ''d1'' (day 10) ''step two'',
              ev ''d1'' (day 20) ''step three''])
      \<and> latest r 0 = Some a \<and> latest r 1 = Some b \<and> latest r 2 = Some c
      \<and> c \<le> b + toIntervalDay 14 \<and> a + toIntervalDay 14 < c
      \<and> steps r = 2 \<and> per_step_duration r 2 = Some 864000)"
proof (rule conjI)
  let ?r = "\<lparr>aggregation_target = 1, timestamp = day 0, step_0 = 1,
     latest_0 = Some (day 0), step_1 = 0, latest_1 = Some (day 1),
     step_2 = 0, latest_2 = Some (day 2), steps = 2,
     step_1_conversion_time = Some 86400, step_2_conversion_time = Some 86400\<rparr>"
  have m: "?r \<in> set (evaluated (returns_recordings\<lparr>conversion_window := toIntervalDay 1\<rparr>)
             [''d1'' \<mapsto> 1]
             [ev ''d1'' (day 0) ''step one'', ev ''d1'' (day 1) ''step two'',
              ev ''d1'' (day 2) ''step three''])" by code_simp
  have f: "latest ?r 0 = Some (day 0)" "latest ?r 1 = Some (day 1)" "latest ?r 2 = Some (day 2)"
    "steps ?r = 2" "per_step_duration ?r 2 = Some 86400"
    by (simp_all add: latest_def per_step_duration_def)
  have o: "day 2 \<le> day 1 + toIntervalDay 1" "day 0 + toIntervalDay 1 < day 2"
    by (simp_all add: day_def toIntervalDay_def)
  show "\<exists>r a b c.
      r \<in> set (evaluated (returns_recordings\<lparr>conversion_window := toIntervalDay 1\<rparr>)
             [''d1'' \<mapsto> 1]
             [ev ''d1'' (day 0) ''step one'', ev ''d1'' (day 1) ''step two'',
              ev ''d1'' (day 2) ''step three''])
      \<and> latest r 0 = Some a \<and> latest r 1 = Some b \<and> latest r 2 = Some c
      \<and> c \<le> b + toIntervalDay 1 \<and> a + toIntervalDay 1 < c
      \<and> steps r = 2 \<and> per_step_duration r 2 = Some 86400"
    by (intro exI conjI) (rule m, (rule f)+, (rule o)+, (rule f)+)
next
  let ?r = "\<lparr>aggregation_target = 1, timestamp = day 0, step_0 = 1,
     latest_0 = Some (day 0), step_1 = 0, latest_1 = Some (day 10),
     step_2 = 0, latest_2 = Some (day 20), steps = 2,
     step_1_conversion_time = Some 864000, step_2_conversion_time = Some 864000\<rparr>"
  have m: "?r \<in> set (evaluated (returns_recordings\<lparr>date_to := day 30\<rparr>)
             [''d1'' \<mapsto> 1]
             [ev ''d1'' (day 0) ''step one'', ev ''d1'' (day 10) ''step two'',
              ev ''d1'' (day 20) ''step three''])" by code_simp
  have f: "latest ?r 0 = Some (day 0)" "latest ?r 1 = Some (day 10)" "latest ?r 2 = Some (day 20)"
    "steps ?r = 2" "per_step_duration ?r 2 = Some 864000"
    by (simp_all add: latest_def per_step_duration_def)
  have o: "day 20 \<le> day 10 + toIntervalDay 14" "day 0 + toIntervalDay 14 < day 20"
    by (simp_all add: day_def toIntervalDay_def)
  show "\<exists>r a b c.
      r \<in> set (evaluated (returns_recordings\<lparr>date_to := day 30\<rparr>)
             [''d1'' \<mapsto> 1]
             [ev ''d1'' (day 0) ''step one'', ev ''d1'' (day 10) ''step two'',
              ev ''d1'' (day 20) ''step three''])
      \<and> latest r 0 = Some a \<and> latest r 1 = Some b \<and> latest r 2 = Some c
      \<and> c \<le> b + toIntervalDay 14 \<and> a + toIntervalDay 14 < c
      \<and> steps r = 2 \<and> per_step_duration r 2 = Some 864000"
    by (intro exI conjI) (rule m, (rule f)+, (rule o)+, (rule f)+)
qed

section \<open>Window Resolver\<close>

text \<open>
  Claim C6. In every row the window resolver produces, consecutive resolved timestamps that
  are both present are in non-decreasing order.
\<close>

theorem latest_non_decreasing:
  assumes "x \<in> set (resolved P e__pdi events)"
    and "latest x i = Some a" and "latest x (Suc i) = Some b"
  shows "a \<le> b"
proof -
  have "i = 0 \<or> i = 1" using assms(3) by (auto simp: latest_def split: if_splits)
  then show ?thesis using resolved_chain[OF assms(1)] assms(2,3) by (auto simp: latest_def)
qed

theorem latest_non_decreasing_witness:
  "\<lparr>aggregation_target = 1, timestamp = day 0, step_0 = 1,
      latest_0 = Some (day 0), step_1 = 0, latest_1 = Some (day 1),
      step_2 = 0, latest_2 = Some (day 2)\<rparr>
    \<in> set (resolved returns_recordings [''d1'' \<mapsto> 1]
        [ev ''d1'' (day 0) ''step one'', ev ''d1'' (day 1) ''step two'',
         ev ''d1'' (day 2) ''step three''])
   \<and> day 1 \<le> day 2"
proof -
  let ?x = "\<lparr>aggregation_target = 1, timestamp = day 0, step_0 = 1,
      latest_0 = Some (day 0), step_1 = 0, latest_1 = Some (day 1),
      step_2 = 0, latest_2 = Some (day 2)\<rparr>"
  have m: "?x \<in> set (resolved returns_recordings [''d1'' \<mapsto> 1]
        [ev ''d1'' (day 0) ''step one'', ev ''d1'' (day 1) ''step two'',
         ev ''d1'' (day 2) ''step three''])" by code_simp
  have a: "latest ?x 1 = Some (day 1)" by (simp add: latest_def)
  have b: "latest ?x (Suc 1) = Some (day 2)" by (simp add: latest_def)
  show ?thesis by (rule conjI[OF m latest_non_decreasing[OF m a b]])
qed

text \<open>
  Claim C8 says that when \<open>latest 1\<close> is absent, so is \<open>latest 2\<close>. The query keeps
  \<open>latest_2\<close> when \<open>latest_1\<close> is NULL: an entrance followed by a step-3 event only has
  \<open>latest 1\<close> absent and \<open>latest 2\<close> present.
\<close>

theorem later_step_resolved_counterexample:
  "\<exists>x\<in>set (resolved returns_recordings [''d1'' \<mapsto> 1]
        [ev ''d1'' (day 0) ''step one'', ev ''d1'' (day 1) ''step three'']).
     step_0 x = 1 \<and> latest x 1 = None \<and> latest x 2 = Some (day 1)"
proof -
  have "resolved returns_recordings [''d1'' \<mapsto> 1]
        [ev ''d1'' (day 0) ''step one'', ev ''d1'' (day 1) ''step three'']
     = [\<lparr>aggregation_target = 1, timestamp = day 1, step_0 = 0,
     latest_0 = None, step_1 = 0, latest_1 = None, step_2 = 1,
     latest_2 = Some (day 1)\<rparr>,
  \<lparr>aggregation_target = 1, timestamp = day 0, step_0 = 1,
     latest_0 = Some (day 0), step_1 = 0, latest_1 = None,
     step_2 = 0, latest_2 = Some (day 1)\<rparr>]" by code_simp
  then show ?thesis by (simp add: latest_def)
qed

text \<open>
  Claim C8, amended. When \<open>latest 1\<close> of an entrance candidate is absent, step 2 is treated
  as unresolved whatever \<open>latest 2\<close> holds: the completed-step count is 1 and no per-step
  duration is populated.
\<close>

theorem unresolved_step_not_counted:
  assumes "r \<in> set (evaluated P e__pdi events)" and "latest r 1 = None"
  shows "steps r = 1 \<and> per_step_duration r 1 = None \<and> per_step_duration r 2 = None"
proof -
  from assms(1) obtain x where x: "r = depth_evaluator (conversion_window P) x"
    by (rule evaluated_row)
  show ?thesis using assms(2) unfolding x
    by (auto simp: per_step_duration_def latest_def depth_evaluator_def srow.defs ifNull_def
         isNotNull_def lessOrEquals_def plus_ch_def dateDiff_second_def)
qed

theorem unresolved_step_not_counted_witness:
  "\<lparr>aggregation_target = 1, timestamp = day 0, step_0 = 1,
     latest_0 = Some (day 0), step_1 = 0, latest_1 = None,
     step_2 = 0, latest_2 = Some (day 1), steps = 1,
      step_1_conversion_time = None, step_2_conversion_time = None\<rparr>
    \<in> set (evaluated returns_recordings [''d1'' \<mapsto> 1]
        [ev ''d1'' (day 0) ''step one'', ev ''d1'' (day 1) ''step three''])
   \<and> per_step_duration \<lparr>aggregation_target = 1, timestamp = day 0, step_0 = 1,
     latest_0 = Some (day 0), step_1 = 0, latest_1 = None,
     step_2 = 0, latest_2 = Some (day 1), steps = 1,
      step_1_conversion_time = None, step_2_conversion_time = None\<rparr> 2 = None"
proof -
  let ?r = "\<lparr>aggregation_target = 1, timestamp = day 0, step_0 = 1,
     latest_0 = Some (day 0), step_1 = 0, latest_1 = None,
     step_2 = 0, latest_2 = Some (day 1), steps = 1,
      step_1_conversion_time = None, step_2_conversion_time = None\<rparr>"
  have m: "?r \<in> set (evaluated returns_recordings [''d1'' \<mapsto> 1]
        [ev ''d1'' (day 0) ''step one'', ev ''d1'' (day 1) ''step three''])" by code_simp
  have n: "latest ?r 1 = None" by (simp add: latest_def)
  from unresolved_step_not_counted[OF m n] have "per_step_duration ?r 2 = None" by blast
  then show ?thesis by (rule conjI[OF m])
qed

lemma smallest_timestamp_Some_iff:
  "smallest_timestamp xs = Some m \<longleftrightarrow>
     (\<exists>y\<in>set xs. timestamp y = m) \<and> (\<forall>y\<in>set xs. m \<le> timestamp y)"
proof (cases "xs = []")
  case True
  then show ?thesis by (simp add: smallest_timestamp_def)
next
  case False
  then have ne: "set (map timestamp xs) \<noteq> {}" and fin: "finite (set (map timestamp xs))" by auto
  have "Min (set (map timestamp xs)) = m \<longleftrightarrow>
      m \<in> set (map timestamp xs) \<and> (\<forall>v\<in>set (map timestamp xs). m \<le> v)"
    using Min_eq_iff[OF fin ne] by blast
  with False show ?thesis by (auto simp: smallest_timestamp_def)
qed

lemma option_eq_by_Some: "(\<And>m. a = Some m \<longleftrightarrow> b = Some m) \<Longrightarrow> a = b"
  by (cases a; cases b) auto

lemma in_filter_frame_iff:
  assumes "i < length ws"
  shows "y \<in> set (filter Q (frame ws i)) \<longleftrightarrow> (\<exists>j\<le>i. y = ws ! j \<and> same_target ws j i \<and> Q y)"
  using in_frame_iff[OF assms] by (auto simp: same_target_def)

lemma wmin_1_smallest:
  assumes w: "window_order ws" and i: "i < length ws"
  shows "wmin latest_1 ws i =
     smallest_timestamp (filter (\<lambda>y. step_1 y = 1 \<and> timestamp (ws ! i) \<le> timestamp y) (frame ws i))"
proof (rule option_eq_by_Some)
  fix m
  have ge: "\<And>j. j \<le> i \<Longrightarrow> timestamp (ws ! i) \<le> timestamp (ws ! j)"
    using window_order_desc[OF w _ i] by simp
  show "wmin latest_1 ws i = Some m \<longleftrightarrow>
     smallest_timestamp (filter (\<lambda>y. step_1 y = 1 \<and> timestamp (ws ! i) \<le> timestamp y) (frame ws i)) = Some m"
    unfolding wmin_1_Some_iff[OF w i] smallest_timestamp_Some_iff Bex_def Ball_def
      in_filter_frame_iff[OF i]
    using ge by (auto; blast)
qed

lemma resolved_2_smallest:
  assumes w: "window_order (order_by_timestamp_desc rows)" and i: "i < length rows"
    and b: "wmin latest_1 (order_by_timestamp_desc rows) i = Some b"
  shows "wmin latest_2 (null_out (window_1 rows)) i =
     smallest_timestamp (filter (\<lambda>y. step_2 y = 1 \<and> b \<le> timestamp y)
       (frame (order_by_timestamp_desc rows) i))"
proof (rule option_eq_by_Some)
  fix c
  have il: "i < length (order_by_timestamp_desc rows)" using i by (simp add: length_order_by)
  show "wmin latest_2 (null_out (window_1 rows)) i = Some c \<longleftrightarrow>
     smallest_timestamp (filter (\<lambda>y. step_2 y = 1 \<and> b \<le> timestamp y)
       (frame (order_by_timestamp_desc rows) i)) = Some c"
    unfolding resolved_latest_2_Some_iff[OF w i b] smallest_timestamp_Some_iff Bex_def Ball_def
      in_filter_frame_iff[OF il]
    by (auto; blast)
qed

lemma frame_all_later:
  assumes w: "window_order ws" and i: "i < length ws"
    and d: "\<And>j. j < length ws \<Longrightarrow> j \<noteq> i \<Longrightarrow> same_target ws j i
        \<Longrightarrow> timestamp (ws ! j) \<noteq> timestamp (ws ! i)"
  shows "set (frame ws i) = {y \<in> set ws. aggregation_target y = aggregation_target (ws ! i)
       \<and> timestamp (ws ! i) \<le> timestamp y}"
proof (intro set_eqI iffI)
  fix y assume "y \<in> set (frame ws i)"
  then obtain j where j: "j \<le> i" "y = ws ! j" "aggregation_target (ws ! j) = aggregation_target (ws ! i)"
    using in_frame_iff[OF i] by auto
  then have "timestamp (ws ! i) \<le> timestamp y" using window_order_desc[OF w _ i] by simp
  moreover have "y \<in> set ws" using j i by simp
  ultimately show "y \<in> {y \<in> set ws. aggregation_target y = aggregation_target (ws ! i)
       \<and> timestamp (ws ! i) \<le> timestamp y}" using j by simp
next
  fix y assume "y \<in> {y \<in> set ws. aggregation_target y = aggregation_target (ws ! i)
       \<and> timestamp (ws ! i) \<le> timestamp y}"
  then obtain j where j: "j < length ws" "y = ws ! j" "same_target ws j i"
      "timestamp (ws ! i) \<le> timestamp (ws ! j)"
    by (auto simp: in_set_conv_nth same_target_def)
  have "j \<le> i"
  proof (rule ccontr)
    assume "\<not> j \<le> i"
    then have "i \<le> j" "j \<noteq> i" by auto
    then have "timestamp (ws ! j) \<le> timestamp (ws ! i)" using window_order_desc[OF w _ j(1)] by simp
    with j(4) have "timestamp (ws ! j) = timestamp (ws ! i)" by simp
    with d[OF j(1) \<open>j \<noteq> i\<close> j(3)] show False by simp
  qed
  then show "y \<in> set (frame ws i)" using in_frame_iff[OF i] j by (auto simp: same_target_def)
qed

text \<open>
  Claim C2, amended. For every entrance candidate (row \<open>i\<close> of the window order with the
  step-0 signal), \<open>latest 1\<close> is the smallest timestamp, at or after \<open>latest 0\<close>, among the
  step-1 rows of the entrance's frame, and when \<open>latest 1\<close> is present \<open>latest 2\<close> is the
  smallest timestamp, at or after \<open>latest 1\<close>, among the step-2 rows of that frame; each is
  absent when there is no such row. The frame is the entrance row and the rows of the same
  actor that ORDER BY timestamp DESC places before it: all the actor's events with a
  timestamp at or after the entrance's when no other event of the actor has the entrance's
  timestamp.
\<close>

theorem nearest_future_occurrence:
  assumes ws: "ws = order_by_timestamp_desc (step_events P e__pdi events)"
    and i: "i < length ws" and s: "step_0 (ws ! i) = 1"
    and x: "x = resolved P e__pdi events ! i"
  shows "aggregation_target x = aggregation_target (ws ! i) \<and> timestamp x = timestamp (ws ! i)
     \<and> latest x 0 = Some (timestamp (ws ! i))
     \<and> latest x 1 = smallest_timestamp
          (filter (\<lambda>y. step_1 y = 1 \<and> timestamp (ws ! i) \<le> timestamp y) (frame ws i))
     \<and> (\<forall>b. latest x 1 = Some b \<longrightarrow>
          latest x 2 = smallest_timestamp (filter (\<lambda>y. step_2 y = 1 \<and> b \<le> timestamp y) (frame ws i)))
     \<and> ((\<forall>j<length ws. j \<noteq> i \<and> aggregation_target (ws ! j) = aggregation_target (ws ! i)
             \<longrightarrow> timestamp (ws ! j) \<noteq> timestamp (ws ! i))
         \<longrightarrow> set (frame ws i) = {y \<in> set ws. aggregation_target y = aggregation_target (ws ! i)
               \<and> timestamp (ws ! i) \<le> timestamp y})"
proof -
  define rows where "rows = step_events P e__pdi events"
  have w: "window_order ws" unfolding ws by (rule window_order_step_events)
  have wr: "window_order (order_by_timestamp_desc rows)" using w by (simp add: ws rows_def)
  have i': "i < length rows" using i by (simp add: ws rows_def length_order_by)
  have xe: "x = (ws ! i)\<lparr>latest_1 := wmin latest_1 ws i,
      latest_2 := wmin latest_2 (null_out (window_1 rows)) i\<rparr>"
    unfolding x resolved_def ws rows_def[symmetric] using nth_resolved_rows[OF i'] .
  have c: "classified (ws ! i)" using w i by (simp add: window_order_def)
  have a0: "aggregation_target x = aggregation_target (ws ! i) \<and> timestamp x = timestamp (ws ! i)"
    by (simp add: xe)
  have a1: "latest x 0 = Some (timestamp (ws ! i))" using c s by (simp add: xe latest_def classified_def)
  have a2: "latest x 1 = smallest_timestamp
          (filter (\<lambda>y. step_1 y = 1 \<and> timestamp (ws ! i) \<le> timestamp y) (frame ws i))"
    using wmin_1_smallest[OF w i] by (simp add: xe latest_def)
  have a3: "\<forall>b. latest x 1 = Some b \<longrightarrow>
          latest x 2 = smallest_timestamp (filter (\<lambda>y. step_2 y = 1 \<and> b \<le> timestamp y) (frame ws i))"
  proof (intro allI impI)
    fix b assume "latest x 1 = Some b"
    then have "wmin latest_1 (order_by_timestamp_desc rows) i = Some b"
      by (simp add: xe latest_def ws rows_def)
    from resolved_2_smallest[OF wr i' this]
    show "latest x 2 = smallest_timestamp (filter (\<lambda>y. step_2 y = 1 \<and> b \<le> timestamp y) (frame ws i))"
      by (simp add: xe latest_def ws rows_def)
  qed
  have a4: "(\<forall>j<length ws. j \<noteq> i \<and> aggregation_target (ws ! j) = aggregation_target (ws ! i)
             \<longrightarrow> timestamp (ws ! j) \<noteq> timestamp (ws ! i))
         \<longrightarrow> set (frame ws i) = {y \<in> set ws. aggregation_target y = aggregation_target (ws ! i)
               \<and> timestamp (ws ! i) \<le> timestamp y}"
    using frame_all_later[OF w i] by (simp add: same_target_def)
  from a0 a1 a2 a3 a4 show ?thesis by blast
qed


theorem nearest_future_occurrence_witness:
  "2 < length (order_by_timestamp_desc (step_events returns_recordings [''d1'' \<mapsto> 1]
        [ev ''d1'' (day 0) ''step one'', ev ''d1'' (day 1) ''step two'',
         ev ''d1'' (day 2) ''step three'']))
   \<and> step_0 (order_by_timestamp_desc (step_events returns_recordings [''d1'' \<mapsto> 1]
        [ev ''d1'' (day 0) ''step one'', ev ''d1'' (day 1) ''step two'',
         ev ''d1'' (day 2) ''step three'']) ! 2) = 1
   \<and> latest (resolved returns_recordings [''d1'' \<mapsto> 1]
        [ev ''d1'' (day 0) ''step one'', ev ''d1'' (day 1) ''step two'',
         ev ''d1'' (day 2) ''step three''] ! 2) 2
     = smallest_timestamp (filter (\<lambda>y. step_2 y = 1 \<and> day 1 \<le> timestamp y)
        (frame (order_by_timestamp_desc (step_events returns_recordings [''d1'' \<mapsto> 1]
        [ev ''d1'' (day 0) ''step one'', ev ''d1'' (day 1) ''step two'',
         ev ''d1'' (day 2) ''step three''])) 2))"
proof -
  let ?E = "[ev ''d1'' (day 0) ''step one'', ev ''d1'' (day 1) ''step two'',
         ev ''d1'' (day 2) ''step three'']"
  let ?ws = "order_by_timestamp_desc (step_events returns_recordings [''d1'' \<mapsto> 1] ?E)"
  let ?x = "resolved returns_recordings [''d1'' \<mapsto> 1] ?E ! 2"
  have l: "2 < length ?ws" by code_simp
  have s: "step_0 (?ws ! 2) = 1" by code_simp
  have b: "latest ?x 1 = Some (day 1)" by code_simp
  from nearest_future_occurrence[OF refl l s refl] b
  have "latest ?x 2 = smallest_timestamp (filter (\<lambda>y. step_2 y = 1 \<and> day 1 \<le> timestamp y)
        (frame ?ws 2))" by blast
  with l s show ?thesis by blast
qed

text \<open>
  Claim C2 takes the smallest timestamp among all the actor's step-i events at or after
  \<open>latest (i - 1)\<close>. A step-1 event with the timestamp of the entrance is outside the
  entrance's frame when the sort places it after the entrance: \<open>latest 1\<close> is then absent
  although a step-1 event at \<open>latest 0\<close> exists.
\<close>

theorem nearest_future_occurrence_counterexample:
  "sorted (map e_timestamp [ev ''d1'' (day 0) ''step one'', ev ''d1'' (day 0) ''step two''])
   \<and> step_0 (order_by_timestamp_desc (step_events returns_recordings [''d1'' \<mapsto> 1]
        [ev ''d1'' (day 0) ''step one'', ev ''d1'' (day 0) ''step two'']) ! 0) = 1
   \<and> latest (resolved returns_recordings [''d1'' \<mapsto> 1]
        [ev ''d1'' (day 0) ''step one'', ev ''d1'' (day 0) ''step two''] ! 0) 0 = Some (day 0)
   \<and> latest (resolved returns_recordings [''d1'' \<mapsto> 1]
        [ev ''d1'' (day 0) ''step one'', ev ''d1'' (day 0) ''step two''] ! 0) 1 = None
   \<and> smallest_timestamp (filter (\<lambda>y. aggregation_target y = 1 \<and> step_1 y = 1
                                    \<and> day 0 \<le> timestamp y)
        (step_events returns_recordings [''d1'' \<mapsto> 1]
           [ev ''d1'' (day 0) ''step one'', ev ''d1'' (day 0) ''step two''])) = Some (day 0)"
  by code_simp

section \<open>Entrance Aggregator\<close>

lemma entrance_cohorts_eq:
  "entrance_cohorts P rows =
     map (\<lambda>k. \<lparr>actor = fst k, entrance_period_start = snd k,
            steps_completed = Max (set (map steps (filter (\<lambda>r. group_key r = k)
              (filter (\<lambda>r. toStartOfDay (timestamp r) = entrance_period P) rows))))\<rparr>)
       (remdups (map group_key (filter (\<lambda>r. toStartOfDay (timestamp r) = entrance_period P) rows)))"
  by (simp add: entrance_cohorts_def Let_def ifNull_def equals_def)

lemma entrance_cohorts_keys:
  "map (\<lambda>c. (actor c, entrance_period_start c)) (entrance_cohorts P rows)
     = remdups (map group_key (filter (\<lambda>r. toStartOfDay (timestamp r) = entrance_period P) rows))"
  by (simp add: entrance_cohorts_eq o_def)

lemma entrance_cohorts_mem:
  assumes "c \<in> set (entrance_cohorts P rows)"
  shows "entrance_period_start c = entrance_period P
     \<and> (\<exists>r\<in>set rows. aggregation_target r = actor c
           \<and> toStartOfDay (timestamp r) = entrance_period P)
     \<and> steps_completed c = Max (steps ` {r \<in> set rows. aggregation_target r = actor c
           \<and> toStartOfDay (timestamp r) = entrance_period P})"
proof -
  define sel where "sel = filter (\<lambda>r. toStartOfDay (timestamp r) = entrance_period P) rows"
  from assms obtain k where k: "k \<in> set (map group_key sel)"
    and c: "c = \<lparr>actor = fst k, entrance_period_start = snd k,
            steps_completed = Max (set (map steps (filter (\<lambda>r. group_key r = k) sel)))\<rparr>"
    unfolding entrance_cohorts_eq sel_def[symmetric] by auto
  from k obtain r where r: "r \<in> set rows" "toStartOfDay (timestamp r) = entrance_period P"
    "group_key r = k" by (auto simp: sel_def)
  have k2: "snd k = entrance_period P" "fst k = aggregation_target r"
    using r by (auto simp: group_key_def)
  have "set (map steps (filter (\<lambda>r. group_key r = k) sel))
      = steps ` {r \<in> set rows. aggregation_target r = fst k
           \<and> toStartOfDay (timestamp r) = entrance_period P}"
    using k2 by (auto simp: sel_def group_key_def prod_eq_iff)
  then show ?thesis using r k2 by (auto simp: c)
qed

lemma entrance_cohorts_exists:
  assumes "r \<in> set rows" "toStartOfDay (timestamp r) = entrance_period P"
  shows "\<exists>c\<in>set (entrance_cohorts P rows). actor c = aggregation_target r"
proof -
  have "group_key r \<in> set (map (\<lambda>c. (actor c, entrance_period_start c)) (entrance_cohorts P rows))"
    unfolding entrance_cohorts_keys using assms by auto
  then show ?thesis by (auto simp: group_key_def)
qed

text \<open>
  Claim C4, amended. The aggregator produces exactly one cohort row per actor that has at
  least one entrance in the requested entrance period (the entrance timestamp truncated to
  the day), every cohort row is of that period, and its \<open>steps_completed\<close> is the maximum of
  \<open>steps\<close> over that actor's entrances of the period. An actor without an entrance in the
  requested period has no cohort row.
\<close>

theorem entrance_cohorts_of_period:
  assumes "C = entrance_cohorts P E"
  shows "distinct (map (\<lambda>c. (actor c, entrance_period_start c)) C)
     \<and> (\<forall>c\<in>set C. entrance_period_start c = entrance_period P)
     \<and> (\<forall>a. (\<exists>c\<in>set C. actor c = a) \<longleftrightarrow>
            (\<exists>r\<in>set E. aggregation_target r = a \<and> toStartOfDay (timestamp r) = entrance_period P))
     \<and> (\<forall>c\<in>set C. steps_completed c =
            Max (steps ` {r \<in> set E. aggregation_target r = actor c
                           \<and> toStartOfDay (timestamp r) = entrance_period P}))"
proof -
  have d: "distinct (map (\<lambda>c. (actor c, entrance_period_start c)) C)"
    unfolding assms entrance_cohorts_keys by simp
  moreover have "\<forall>c\<in>set C. entrance_period_start c = entrance_period P"
    unfolding assms using entrance_cohorts_mem by blast
  moreover have "\<forall>a. (\<exists>c\<in>set C. actor c = a) \<longleftrightarrow>
            (\<exists>r\<in>set E. aggregation_target r = a \<and> toStartOfDay (timestamp r) = entrance_period P)"
    unfolding assms using entrance_cohorts_mem[of _ P E] entrance_cohorts_exists[of _ E P] by blast
  moreover have "\<forall>c\<in>set C. steps_completed c =
            Max (steps ` {r \<in> set E. aggregation_target r = actor c
                           \<and> toStartOfDay (timestamp r) = entrance_period P})"
    unfolding assms using entrance_cohorts_mem by blast
  ultimately show ?thesis by blast
qed


theorem entrance_cohorts_of_period_witness:
  "\<lparr>actor = 1, entrance_period_start = day 0, steps_completed = 3\<rparr>
     \<in> set (entrance_cohorts returns_recordings (evaluated returns_recordings [''d1'' \<mapsto> 1]
        [ev ''d1'' (day 0) ''step one'', ev ''d1'' (day 0 + 1) ''step two'',
         ev ''d1'' (day 0 + 2) ''step three'', ev ''d1'' (day 0 + 3) ''step one'']))
   \<and> 3 = Max (steps ` {r \<in> set (evaluated returns_recordings [''d1'' \<mapsto> 1]
        [ev ''d1'' (day 0) ''step one'', ev ''d1'' (day 0 + 1) ''step two'',
         ev ''d1'' (day 0 + 2) ''step three'', ev ''d1'' (day 0 + 3) ''step one'']).
          aggregation_target r = 1
          \<and> toStartOfDay (timestamp r) = entrance_period returns_recordings})
   \<and> map steps (evaluated returns_recordings [''d1'' \<mapsto> 1]
        [ev ''d1'' (day 0) ''step one'', ev ''d1'' (day 0 + 1) ''step two'',
         ev ''d1'' (day 0 + 2) ''step three'', ev ''d1'' (day 0 + 3) ''step one'']) = [1, 3]"
proof -
  let ?E = "evaluated returns_recordings [''d1'' \<mapsto> 1]
        [ev ''d1'' (day 0) ''step one'', ev ''d1'' (day 0 + 1) ''step two'',
         ev ''d1'' (day 0 + 2) ''step three'', ev ''d1'' (day 0 + 3) ''step one'']"
  let ?c = "\<lparr>actor = 1, entrance_period_start = day 0, steps_completed = 3\<rparr>"
  have m: "?c \<in> set (entrance_cohorts returns_recordings ?E)" by code_simp
  have s: "map steps ?E = [1, 3]" by code_simp
  from entrance_cohorts_of_period[OF refl, of returns_recordings ?E] m
  have "steps_completed ?c = Max (steps ` {r \<in> set ?E. aggregation_target r = actor ?c
          \<and> toStartOfDay (timestamp r) = entrance_period returns_recordings})" by blast
  with m s show ?thesis by simp
qed

text \<open>
  Claim C4 promises a cohort row for every pair of an actor and an entrance period with an
  entrance. The WHERE on \<open>entrance_period_start\<close> comes before the grouping: an entrance on
  2021-05-02 gives no cohort row when the query asks for 2021-05-01.
\<close>

theorem entrance_cohorts_counterexample:
  "(\<exists>r\<in>set (evaluated returns_recordings [''d1'' \<mapsto> 1] [ev ''d1'' (day 1) ''step one'']).
       aggregation_target r = 1 \<and> toStartOfDay (timestamp r) = day 1)
   \<and> entrance_cohorts returns_recordings
        (evaluated returns_recordings [''d1'' \<mapsto> 1] [ev ''d1'' (day 1) ''step one'']) = []"
  by code_simp

section \<open>Trend Selector\<close>

lemma depth_where_AtLeast: "depth_where (AtLeast K) s \<longleftrightarrow> K \<le> s"
  by (simp add: ifNull_def greaterOrEquals_def)

lemma depth_where_Range: "depth_where (Range lo hi) s \<longleftrightarrow> lo \<le> s \<and> s < hi"
  by (simp add: ifNull_def greaterOrEquals_def less_ch_def)

lemma mset_source:
  "mset (source P C) = mset (map actor (filter (\<lambda>c. depth_where (depth P) (steps_completed c)) C))"
  by (simp add: source_def)

text \<open>
  Claim C5. The cohort rows are those of the requested entrance period, and the selector
  keeps exactly the actors of the rows that satisfy the depth predicate: \<open>K \<le>
  steps_completed\<close> for "reached at least K", \<open>lo \<le> steps_completed < hi\<close> for "dropped
  off between lo and hi", and \<open>N \<le> steps_completed\<close> for "fully completed", N being the
  number of steps.
\<close>

theorem trend_selector_depth_predicate:
  assumes "C = entrance_cohorts P E"
  shows "(\<forall>c\<in>set C. entrance_period_start c = entrance_period P)
     \<and> (\<forall>K. depth P = AtLeast K \<longrightarrow>
           mset (source P C) = mset (map actor (filter (\<lambda>c. K \<le> steps_completed c) C)))
     \<and> (\<forall>lo hi. depth P = Range lo hi \<longrightarrow>
           mset (source P C)
             = mset (map actor (filter (\<lambda>c. lo \<le> steps_completed c \<and> steps_completed c < hi) C)))
     \<and> (depth P = AtLeast total_steps \<longrightarrow>
           mset (source P C) = mset (map actor (filter (\<lambda>c. total_steps \<le> steps_completed c) C)))"
proof -
  have "\<forall>c\<in>set C. entrance_period_start c = entrance_period P"
    unfolding assms using entrance_cohorts_mem by blast
  moreover have "\<And>K. depth P = AtLeast K \<Longrightarrow>
      mset (source P C) = mset (map actor (filter (\<lambda>c. K \<le> steps_completed c) C))"
    by (simp add: mset_source depth_where_AtLeast del: depth_where.simps)
  moreover have "\<And>lo hi. depth P = Range lo hi \<Longrightarrow>
      mset (source P C)
        = mset (map actor (filter (\<lambda>c. lo \<le> steps_completed c \<and> steps_completed c < hi) C))"
    by (simp add: mset_source depth_where_Range del: depth_where.simps)
  ultimately show ?thesis by blast
qed

theorem trend_selector_depth_predicate_witness:
  "depth with_drop_off = Range 1 3
   \<and> mset (source with_drop_off (entrance_cohorts with_drop_off
        (evaluated with_drop_off [''d1'' \<mapsto> 1, ''d2'' \<mapsto> 2]
          [ev ''d1'' (day 0) ''step one'', ev ''d2'' (day 0) ''step one'',
           ev ''d1'' (day 1) ''step two'', ev ''d1'' (day 2) ''step three''])))
     = mset (map actor (filter (\<lambda>c. 1 \<le> steps_completed c \<and> steps_completed c < 3)
        (entrance_cohorts with_drop_off
        (evaluated with_drop_off [''d1'' \<mapsto> 1, ''d2'' \<mapsto> 2]
          [ev ''d1'' (day 0) ''step one'', ev ''d2'' (day 0) ''step one'',
           ev ''d1'' (day 1) ''step two'', ev ''d1'' (day 2) ''step three'']))))
   \<and> source with_drop_off (entrance_cohorts with_drop_off
        (evaluated with_drop_off [''d1'' \<mapsto> 1, ''d2'' \<mapsto> 2]
          [ev ''d1'' (day 0) ''step one'', ev ''d2'' (day 0) ''step one'',
           ev ''d1'' (day 1) ''step two'', ev ''d1'' (day 2) ''step three''])) = [2]"
proof -
  let ?C = "entrance_cohorts with_drop_off
        (evaluated with_drop_off [''d1'' \<mapsto> 1, ''d2'' \<mapsto> 2]
          [ev ''d1'' (day 0) ''step one'', ev ''d2'' (day 0) ''step one'',
           ev ''d1'' (day 1) ''step two'', ev ''d1'' (day 2) ''step three''])"
  have d: "depth with_drop_off = Range 1 3" by (simp add: with_drop_off_def recorded_def)
  have s: "source with_drop_off ?C = [2]" by code_simp
  from trend_selector_depth_predicate[OF refl, of with_drop_off] d
  have "mset (source with_drop_off ?C)
     = mset (map actor (filter (\<lambda>c. 1 \<le> steps_completed c \<and> steps_completed c < 3) ?C))"
    by blast
  with d s show ?thesis by blast
qed


lemma in_inner_join_source:
  "x \<in> set (inner_join_source persons src) \<longleftrightarrow>
     (\<exists>p\<in>set persons. person_id p \<in> set src
        \<and> x = (person_id p, person_id p, created_at p, 1))"
  by (auto simp: inner_join_source_def)

lemma sorted_order_by_created_at:
  "sorted_wrt (\<lambda>x y. created y \<le> created x) (order_by_created_at_desc rows)"
proof -
  have "sorted (map (\<lambda>x. - created x) (order_by_created_at_desc rows))"
    by (simp add: order_by_created_at_desc_def)
  then show ?thesis by (simp add: sorted_map)
qed

lemma mset_order_by_created_at: "mset (order_by_created_at_desc rows) = mset rows"
  by (simp add: order_by_created_at_desc_def)

text \<open>
  Claim C9, amended. The result is made of the persons joined with the selected actors, in
  descending order of the person's creation time, cut to the first 101 rows of that order
  (LIMIT 101 OFFSET 0): the rows left out are created no later than any row returned. The
  order among persons created at the same time is not determined by the ORDER BY.
\<close>

theorem actors_ordered_and_capped:
  assumes "J = inner_join_source persons (source P (entrance_cohorts P (evaluated P e__pdi events)))"
    and "res = funnel_trend_actors P persons e__pdi events"
  shows "sorted_wrt (\<lambda>x y. created y \<le> created x) res
     \<and> length res = min 101 (length J)
     \<and> (\<exists>rest. mset J = mset res + mset rest
           \<and> (\<forall>x\<in>set res. \<forall>y\<in>set rest. created y \<le> created x))
     \<and> (\<forall>x. x \<in> set J \<longleftrightarrow>
           (\<exists>p\<in>set persons.
               person_id p \<in> set (source P (entrance_cohorts P (evaluated P e__pdi events)))
               \<and> x = (person_id p, person_id p, created_at p, 1)))"
proof -
  define S where "S = order_by_created_at_desc J"
  have res: "res = take 101 S"
    by (simp add: assms funnel_trend_actors_def select_actors_def limit_offset_def S_def)
  have sS: "sorted_wrt (\<lambda>x y. created y \<le> created x) S"
    unfolding S_def by (rule sorted_order_by_created_at)
  have split: "S = res @ drop 101 S" by (simp add: res)
  have a1: "sorted_wrt (\<lambda>x y. created y \<le> created x) res"
    using sS split by (metis sorted_wrt_append)
  have a2: "length res = min 101 (length J)"
    by (simp add: res S_def order_by_created_at_desc_def min.commute)
  have "mset J = mset res + mset (drop 101 S)"
    using split mset_order_by_created_at[of J] by (metis S_def mset_append)
  moreover have "\<forall>x\<in>set res. \<forall>y\<in>set (drop 101 S). created y \<le> created x"
    using sS split by (metis sorted_wrt_append)
  ultimately have a3: "\<exists>rest. mset J = mset res + mset rest
           \<and> (\<forall>x\<in>set res. \<forall>y\<in>set rest. created y \<le> created x)" by blast
  have a4: "\<forall>x. x \<in> set J \<longleftrightarrow>
           (\<exists>p\<in>set persons.
               person_id p \<in> set (source P (entrance_cohorts P (evaluated P e__pdi events)))
               \<and> x = (person_id p, person_id p, created_at p, 1))"
    unfolding assms(1) in_inner_join_source by simp
  from a1 a2 a3 a4 show ?thesis by blast
qed

theorem actors_ordered_and_capped_witness:
  "funnel_trend_actors returns_recordings
      [\<lparr>person_id = 2, created_at = 5\<rparr>, \<lparr>person_id = 1, created_at = 7\<rparr>]
      [''d1'' \<mapsto> 1, ''d2'' \<mapsto> 2]
      [ev ''d1'' (day 0) ''step one'', ev ''d2'' (day 0) ''step one'',
       ev ''d1'' (day 1) ''step two'', ev ''d2'' (day 1) ''step two'']
     = [(1, 1, 7, 1), (2, 2, 5, 1)]
   \<and> sorted_wrt (\<lambda>x y. created y \<le> created x) [(1, 1, 7, 1), (2, 2, 5, 1)]"
proof -
  let ?res = "funnel_trend_actors returns_recordings
      [\<lparr>person_id = 2, created_at = 5\<rparr>, \<lparr>person_id = 1, created_at = 7\<rparr>]
      [''d1'' \<mapsto> 1, ''d2'' \<mapsto> 2]
      [ev ''d1'' (day 0) ''step one'', ev ''d2'' (day 0) ''step one'',
       ev ''d1'' (day 1) ''step two'', ev ''d2'' (day 1) ''step two'']"
  have e: "?res = [(1, 1, 7, 1), (2, 2, 5, 1)]" by code_simp
  from actors_ordered_and_capped[OF refl refl]
  have "sorted_wrt (\<lambda>x y. created y \<le> created x) ?res" by (rule conjunct1)
  then have "sorted_wrt (\<lambda>x y. created y \<le> created x) [(1, 1, 7, 1), (2, 2, 5, 1)]"
    unfolding e .
  with e show ?thesis by (rule conjI)
qed

text \<open>
  Claim C9 has ties in the creation time broken by actor id. The outer ORDER BY has the
  creation time as its only key (the ORDER BY on the actor id is inside the joined
  sub-select): three selected persons created at the same time come back as the person
  sub-select lists them, here 2, 1, 3.
\<close>

theorem actors_tie_order_counterexample:
  "funnel_trend_actors returns_recordings
      [\<lparr>person_id = 2, created_at = 5\<rparr>, \<lparr>person_id = 1, created_at = 5\<rparr>,
       \<lparr>person_id = 3, created_at = 5\<rparr>]
      [''d1'' \<mapsto> 1, ''d2'' \<mapsto> 2, ''d3'' \<mapsto> 3]
      [ev ''d1'' (day 0) ''step one'', ev ''d2'' (day 0) ''step one'',
       ev ''d3'' (day 0) ''step one'', ev ''d1'' (day 1) ''step two'',
       ev ''d2'' (day 1) ''step two'', ev ''d3'' (day 1) ''step two'']
     = [(2, 2, 5, 1), (1, 1, 5, 1), (3, 3, 5, 1)]"
  by code_simp

end
